theory Spec2Isabelle
  imports Complex_Main "HOL-Library.Log_Nat"
begin

section \<open>Python strings and exceptions\<close>

text \<open>
  The program is \<^verbatim>\<open>translatorv3.py\<close>. A Python \<^verbatim>\<open>str\<close> is a sequence of Unicode code
  points, so a string is modelled as a list of code points (natural numbers), not as a list
  of bytes. \<open>lit\<close> turns an ASCII literal of the source into such a list.

  Every exception the program raises is \<^verbatim>\<open>Exception(message)\<close>, and every handler of the
  program only reads \<^verbatim>\<open>str(e)\<close>. An exception is therefore modelled by its message, and a
  call that may raise returns \<open>exn + 'a\<close> with \<open>Inl\<close> for the raised exception.
\<close>

type_synonym pystr = "nat list"

type_synonym exn = pystr

definition lit :: "string \<Rightarrow> pystr" where
  "lit s = map of_char s"

text \<open>
  \<^verbatim>\<open>str.isspace\<close> of a single code point: the characters Python treats as whitespace in
  \<^verbatim>\<open>str.strip()\<close> (bidirectional class WS, B or S, or category Zs).
\<close>

definition isspace :: "nat \<Rightarrow> bool" where
  "isspace c \<longleftrightarrow>
     (9 \<le> c \<and> c \<le> 13) \<or> (28 \<le> c \<and> c \<le> 32) \<or> c = 133 \<or> c = 160 \<or> c = 5760 \<or>
     (8192 \<le> c \<and> c \<le> 8202) \<or> c = 8232 \<or> c = 8233 \<or> c = 8239 \<or> c = 8287 \<or> c = 12288"

text \<open>\<^verbatim>\<open>s.strip()\<close>: whitespace removed at both ends.\<close>

definition strip :: "pystr \<Rightarrow> pystr" where
  "strip s = rev (dropWhile isspace (rev (dropWhile isspace s)))"

text \<open>\<^verbatim>\<open>str(i)\<close> of a non-negative integer: its decimal digits.\<close>

fun str_nat :: "nat \<Rightarrow> pystr" where
  "str_nat n = (if n < 10 then [48 + n] else str_nat (n div 10) @ [48 + n mod 10])"

text \<open>
  \<^verbatim>\<open>s.split(sep)\<close> for a separator: the pieces between the non-overlapping occurrences of
  \<open>sep\<close>, found from the left. \<open>acc\<close> is the piece being read. (Python raises
  \<^verbatim>\<open>ValueError\<close> on an empty separator; the program only splits on two line breaks.)
\<close>

function split_from :: "pystr \<Rightarrow> pystr \<Rightarrow> pystr \<Rightarrow> pystr list" where
  "split_from sep acc s =
     (if s = [] then [acc]
      else if sep \<noteq> [] \<and> take (length sep) s = sep
        then acc # split_from sep [] (drop (length sep) s)
      else split_from sep (acc @ [hd s]) (tl s))"
  by pat_completeness auto
termination
  by (relation "measure (\<lambda>(sep, acc, s). length s)") auto

definition py_split :: "pystr \<Rightarrow> pystr \<Rightarrow> pystr list" where
  "py_split sep s = split_from sep [] s"

text \<open>\<^verbatim>\<open>s.replace('\n', ' ')\<close>.\<close>

definition replace_nl :: "pystr \<Rightarrow> pystr" where
  "replace_nl s = map (\<lambda>c. if c = 10 then 32 else c) s"

text \<open>Whether \<open>p\<close> occurs in \<open>s\<close> as a contiguous substring (\<^verbatim>\<open>p in s\<close>).\<close>

fun occurs_in :: "pystr \<Rightarrow> pystr \<Rightarrow> bool" where
  "occurs_in p [] = (p = [])"
| "occurs_in p (c # cs) = (take (length p) (c # cs) = p \<or> occurs_in p cs)"

text \<open>The number a string of decimal digits denotes (\<^verbatim>\<open>int(s)\<close> on digits).\<close>

definition parse_nat :: "pystr \<Rightarrow> nat" where
  "parse_nat s = foldl (\<lambda>a d. 10 * a + (d - 48)) 0 s"

section \<open>Python floats\<close>

text \<open>
  A Python \<^verbatim>\<open>float\<close> is an IEEE 754 binary64 number, and every float operation returns
  the exact result rounded to the nearest such number, ties to the even mantissa. A float is
  modelled by the rational it denotes. \<open>fl64 x\<close> is the rounding of the exact result \<open>x\<close>:
  with \<open>e\<close> the exponent of \<open>x\<close> (\<open>2 ^ e \<le> |x| < 2 ^ (e + 1)\<close>), the nearest multiple of
  \<open>2 ^ (e - 52)\<close>. This is the rounding of a result in the normal range
  (\<open>2 ^ (-1022) \<le> |x| < 2 ^ 1024\<close>); overflow and subnormal numbers are left out, and no
  value of the program reaches them for a document of fewer than \<open>2 ^ 1022\<close> pages.
\<close>

definition round_half_even :: "rat \<Rightarrow> int" where
  "round_half_even y =
     (let f = \<lfloor>y\<rfloor>; r = y - of_int f in
      if r < 1 / 2 then f else if 1 / 2 < r then f + 1 else if even f then f else f + 1)"

text \<open>
  The exponent of a positive rational \<open>p / q\<close>: the difference of the bit lengths of \<open>p\<close> and
  \<open>q\<close>, or one less.
\<close>

definition exponent :: "rat \<Rightarrow> int" where
  "exponent x =
     (case quotient_of x of (p, q) \<Rightarrow>
        let d = bitlen p - bitlen q in if 2 powi d \<le> x then d else d - 1)"

definition fl64 :: "rat \<Rightarrow> rat" where
  "fl64 x =
     (if x = 0 then 0
      else let a = \<bar>x\<bar>; e = exponent a; m = round_half_even (a * 2 powi (52 - e))
           in sgn x * of_int m * 2 powi (e - 52))"

section \<open>Text acquisition: \<^verbatim>\<open>extract_text_from_pdf\<close>\<close>

text \<open>
  What the function reads from the outside world:
  \<^item> \<open>num_pages\<close>: \<^verbatim>\<open>open(pdf_path, 'rb')\<close>, \<^verbatim>\<open>PyPDF2.PdfReader(file)\<close> and
    \<^verbatim>\<open>len(reader.pages)\<close>, any of which may raise;
  \<^item> \<open>extract_text i\<close>: \<^verbatim>\<open>page.extract_text()\<close> of page \<open>i\<close> (counted from 1): it raises,
    returns \<^verbatim>\<open>None\<close> or returns a string;
  \<^item> \<open>convert_from_path i\<close>: \<^verbatim>\<open>convert_from_path(pdf_path, dpi=200, first_page=i, last_page=i)\<close>;
  \<^item> \<open>image_to_string\<close>: \<^verbatim>\<open>pytesseract.image_to_string\<close>;
  \<^item> \<open>fl\<close>: the rounding of a real result to the float Python stores. The progress value
    \<^verbatim>\<open>(i / num_pages) * 50\<close> is two float operations, each rounded. In CPython \<open>fl\<close> is
    \<open>fl64\<close>.
\<close>

record 'img pdf_env =
  num_pages :: "exn + nat"
  extract_text :: "nat \<Rightarrow> exn + pystr option"
  convert_from_path :: "nat \<Rightarrow> exn + 'img list"
  image_to_string :: "'img \<Rightarrow> exn + pystr"
  fl :: "rat \<Rightarrow> rat"

text \<open>What the function does to the outside world, in order.\<close>

datatype 'img event =
    Extract nat
  | Rasterize nat
  | Recognize 'img
  | Report rat

text \<open>\<^verbatim>\<open>(i / num_pages) * 50\<close>.\<close>

definition progress_value :: "(rat \<Rightarrow> rat) \<Rightarrow> nat \<Rightarrow> nat \<Rightarrow> rat" where
  "progress_value rnd i n = rnd (rnd (of_nat i / of_nat n) * 50)"

text \<open>
  Lines 109-110: \<^verbatim>\<open>if progress_callback: progress_callback((i / num_pages) * 50)\<close>.
  \<open>cb\<close> says whether a callback was passed; the callback receives the value.
\<close>

definition report :: "'img pdf_env \<Rightarrow> bool \<Rightarrow> nat \<Rightarrow> nat \<Rightarrow> 'img event list" where
  "report env cb n i = (if cb then [Report (progress_value (fl env) i n)] else [])"

text \<open>\<^verbatim>\<open>f"Error during OCR on page {i}: " + str(ocr_e)\<close> (line 108).\<close>

definition ocr_error :: "nat \<Rightarrow> exn \<Rightarrow> exn" where
  "ocr_error i ocr_e = lit ''Error during OCR on page '' @ str_nat i @ lit '': '' @ ocr_e"

text \<open>
  Lines 102-108, the \<^verbatim>\<open>else\<close> branch: rasterize page \<open>i\<close>; when the list of images is
  not empty, recognise the first image and append its text and a line break. The result is
  the events of the branch and either the exception raised at line 108 or the new text.
\<close>

definition ocr_fallback ::
  "'img pdf_env \<Rightarrow> nat \<Rightarrow> pystr \<Rightarrow> 'img event list \<times> (exn + pystr)" where
  "ocr_fallback env i text =
     (case convert_from_path env i of
        Inl ocr_e \<Rightarrow> ([Rasterize i], Inl (ocr_error i ocr_e))
      | Inr images \<Rightarrow>
          (case images of
             [] \<Rightarrow> ([Rasterize i], Inr text)
           | img # rest \<Rightarrow>
               (case image_to_string env img of
                  Inl ocr_e \<Rightarrow> ([Rasterize i, Recognize img], Inl (ocr_error i ocr_e))
                | Inr ocr_text \<Rightarrow> ([Rasterize i, Recognize img], Inr (text @ ocr_text @ [10])))))"

text \<open>
  Lines 98-110, the body of the loop for page \<open>i\<close> of \<open>n\<close>, from the text accumulated so far.
  \<^verbatim>\<open>if page_text and page_text.strip()\<close> holds when the result is neither \<^verbatim>\<open>None\<close> nor
  the empty string and is not whitespace only. An exception of \<^verbatim>\<open>page.extract_text()\<close> is
  outside the inner \<^verbatim>\<open>try\<close> and leaves the loop as it is.
\<close>

definition page_body ::
  "'img pdf_env \<Rightarrow> bool \<Rightarrow> nat \<Rightarrow> nat \<Rightarrow> pystr \<Rightarrow> 'img event list \<times> (exn + pystr)" where
  "page_body env cb n i text =
     (case extract_text env i of
        Inl e \<Rightarrow> ([Extract i], Inl e)
      | Inr page_text \<Rightarrow>
          (case (case page_text of
                   None \<Rightarrow> ocr_fallback env i text
                 | Some t \<Rightarrow>
                     if t \<noteq> [] \<and> strip t \<noteq> [] then ([], Inr (text @ t @ [10]))
                     else ocr_fallback env i text) of
             (evs, Inl e) \<Rightarrow> (Extract i # evs, Inl e)
           | (evs, Inr text') \<Rightarrow> (Extract i # evs @ report env cb n i, Inr text')))"

text \<open>Lines 97-110: the loop over the pages still to be read.\<close>

fun pages_loop ::
  "'img pdf_env \<Rightarrow> bool \<Rightarrow> nat \<Rightarrow> nat list \<Rightarrow> pystr \<Rightarrow> 'img event list \<times> (exn + pystr)" where
  "pages_loop env cb n [] text = ([], Inr text)"
| "pages_loop env cb n (i # rest) text =
     (case page_body env cb n i text of
        (evs, Inl e) \<Rightarrow> (evs, Inl e)
      | (evs, Inr text') \<Rightarrow>
          (case pages_loop env cb n rest text' of (evs', r) \<Rightarrow> (evs @ evs', r)))"

text \<open>The indices of \<^verbatim>\<open>enumerate(reader.pages, start=1)\<close> for \<open>n\<close> pages.\<close>

definition page_numbers :: "nat \<Rightarrow> nat list" where
  "page_numbers n = [1..<Suc n]"

definition extraction_error :: "exn \<Rightarrow> exn" where
  "extraction_error e = lit ''Error extracting text from PDF: '' @ e"

definition no_text_error :: exn where
  "no_text_error = lit ''No text could be extracted from the PDF.''"

text \<open>
  Lines 91-115. Every exception raised inside the outer \<^verbatim>\<open>try\<close> is raised again with the
  prefix of line 112; the emptiness check of lines 113-114 is outside it.
\<close>

definition extract_text_from_pdf ::
  "'img pdf_env \<Rightarrow> bool \<Rightarrow> 'img event list \<times> (exn + pystr)" where
  "extract_text_from_pdf env cb =
     (case num_pages env of
        Inl e \<Rightarrow> ([], Inl (extraction_error e))
      | Inr n \<Rightarrow>
          (case pages_loop env cb n (page_numbers n) [] of
             (evs, Inl e) \<Rightarrow> (evs, Inl (extraction_error e))
           | (evs, Inr text) \<Rightarrow>
               if strip text = [] then (evs, Inl no_text_error) else (evs, Inr text)))"

text \<open>The values the progress callback received, in order.\<close>

fun reported :: "'img event list \<Rightarrow> rat list" where
  "reported [] = []"
| "reported (Report v # evs) = v # reported evs"
| "reported (e # evs) = reported evs"

text \<open>Whether an event is a call of the rasterizer or of the recogniser.\<close>

fun is_ocr_call :: "'img event \<Rightarrow> bool" where
  "is_ocr_call (Rasterize i) = True"
| "is_ocr_call (Recognize img) = True"
| "is_ocr_call e = False"

section \<open>Translation: \<^verbatim>\<open>translate_text\<close>\<close>

text \<open>
  An installed language of Argos Translate, as far as the program reads it: its code.
  \<open>get_translation a b\<close> is \<^verbatim>\<open>a.get_translation(b)\<close>, which returns the installed
  translation from \<open>a\<close> to \<open>b\<close> or \<^verbatim>\<open>None\<close> when there is none; \<open>translate t text\<close> is
  \<^verbatim>\<open>t.translate(text)\<close>.
\<close>

record language =
  code :: pystr
  lang_name :: pystr

record 'tr translate_env =
  get_installed_languages :: "exn + language list"
  get_translation :: "language \<Rightarrow> language \<Rightarrow> exn + 'tr option"
  translate :: "'tr \<Rightarrow> pystr \<Rightarrow> exn + pystr"

datatype 'tr tr_event =
    GetInstalledLanguages
  | GetTranslation language language
  | Translate 'tr pystr

text \<open>
  Lines 121-127: the loop over the installed languages. It has no \<^verbatim>\<open>break\<close>: the last
  language with the code is the one kept.
\<close>

fun find_languages ::
  "language list \<Rightarrow> pystr \<Rightarrow> pystr \<Rightarrow> language option \<times> language option
     \<Rightarrow> language option \<times> language option" where
  "find_languages [] from_lang_code to_lang_code objs = objs"
| "find_languages (lang # rest) from_lang_code to_lang_code (from_lang_obj, to_lang_obj) =
     find_languages rest from_lang_code to_lang_code
       (if code lang = from_lang_code then Some lang else from_lang_obj,
        if code lang = to_lang_code then Some lang else to_lang_obj)"

definition translation_error :: "exn \<Rightarrow> exn" where
  "translation_error e = lit ''Error during translation: '' @ e"

definition not_installed_message :: exn where
  "not_installed_message =
     lit ''Translation packages for the selected language pair are not installed.''"

text \<open>
  \<^verbatim>\<open>str\<close> of the \<^verbatim>\<open>AttributeError\<close> Python raises for \<^verbatim>\<open>None.translate\<close>:
  \<^verbatim>\<open>'NoneType' object has no attribute 'translate'\<close> (39 is the apostrophe).
\<close>

definition none_translate_message :: exn where
  "none_translate_message =
     [39] @ lit ''NoneType'' @ [39] @ lit '' object has no attribute '' @
     [39] @ lit ''translate'' @ [39]"

text \<open>
  Lines 118-133. Line 128 tests the two objects for truth; a language object is true, so
  the test fails exactly when one of them is still \<^verbatim>\<open>None\<close>. Line 131 calls
  \<^verbatim>\<open>translate\<close> on whatever line 130 returned; on \<^verbatim>\<open>None\<close> Python raises the
  \<^verbatim>\<open>AttributeError\<close> above. Every exception is raised again with the prefix of line 133.
\<close>

definition translate_text ::
  "'tr translate_env \<Rightarrow> pystr \<Rightarrow> pystr \<Rightarrow> pystr \<Rightarrow> 'tr tr_event list \<times> (exn + pystr)" where
  "translate_text env text from_lang_code to_lang_code =
     (case get_installed_languages env of
        Inl e \<Rightarrow> ([GetInstalledLanguages], Inl (translation_error e))
      | Inr installed_languages \<Rightarrow>
          (case find_languages installed_languages from_lang_code to_lang_code (None, None) of
             (Some from_lang_obj, Some to_lang_obj) \<Rightarrow>
               (case get_translation env from_lang_obj to_lang_obj of
                  Inl e \<Rightarrow>
                    ([GetInstalledLanguages, GetTranslation from_lang_obj to_lang_obj],
                     Inl (translation_error e))
                | Inr None \<Rightarrow>
                    ([GetInstalledLanguages, GetTranslation from_lang_obj to_lang_obj],
                     Inl (translation_error none_translate_message))
                | Inr (Some translation) \<Rightarrow>
                    (case translate env translation text of
                       Inl e \<Rightarrow>
                         ([GetInstalledLanguages, GetTranslation from_lang_obj to_lang_obj,
                           Translate translation text],
                          Inl (translation_error e))
                     | Inr translated \<Rightarrow>
                         ([GetInstalledLanguages, GetTranslation from_lang_obj to_lang_obj,
                           Translate translation text],
                          Inr translated)))
           | _ \<Rightarrow> ([GetInstalledLanguages], Inl (translation_error not_installed_message))))"

text \<open>Whether an event is a call of the translation runtime proper.\<close>

fun is_runtime_call :: "'tr tr_event \<Rightarrow> bool" where
  "is_runtime_call GetInstalledLanguages = False"
| "is_runtime_call (GetTranslation a b) = True"
| "is_runtime_call (Translate t s) = True"

section \<open>Rendering: \<^verbatim>\<open>create_translated_pdf\<close>\<close>

text \<open>The flowables of ReportLab the program puts into the story.\<close>

datatype flowable =
    Paragraph pystr
  | Spacer nat nat

text \<open>
  Lines 142-146: the loop over the pieces, appending to \<open>story\<close>. (The paragraph style is
  always \<^verbatim>\<open>styles["Normal"]\<close> and is left out.)
\<close>

fun story_loop :: "pystr list \<Rightarrow> flowable list \<Rightarrow> flowable list" where
  "story_loop [] story = story"
| "story_loop (para # rest) story =
     (let para' = replace_nl para in
      if strip para' \<noteq> []
        then story_loop rest (story @ [Paragraph (strip para'), Spacer 1 12])
      else story_loop rest story)"

definition build_story :: "pystr \<Rightarrow> flowable list" where
  "build_story text = story_loop (py_split [10, 10] text) []"

definition render_error :: "exn \<Rightarrow> exn" where
  "render_error e = lit ''Error creating translated PDF: '' @ e"

text \<open>
  Lines 136-149. \<open>doc_build\<close> is what ReportLab does with the story (constructing the
  paragraphs and \<^verbatim>\<open>doc.build(story)\<close>, which writes the file): it raises or it succeeds.
  The result is the story that was written.
\<close>

definition create_translated_pdf ::
  "(flowable list \<Rightarrow> exn + unit) \<Rightarrow> pystr \<Rightarrow> exn + flowable list" where
  "create_translated_pdf doc_build text =
     (case doc_build (build_story text) of
        Inl e \<Rightarrow> Inl (render_error e)
      | Inr u \<Rightarrow> Inr (build_story text))"


section \<open>The pipeline: \<^verbatim>\<open>process_translation\<close>\<close>

text \<open>
  The worker of \<^verbatim>\<open>translate_pdf\<close> (lines 343-376). It acts on the window only by
  scheduling calls with \<^verbatim>\<open>master.after(0, ...)\<close>; the model records the calls it
  schedules, in the order it schedules them; when Tk runs them is outside the model.
  \<open>output_pages\<close> is the page count read back
  from the written file (lines 357-359), which may raise.
\<close>

record ('img, 'tr) pipeline_env =
  acquisition :: "'img pdf_env"
  translation :: "'tr translate_env"
  doc_build :: "flowable list \<Rightarrow> exn + unit"
  output_pages :: "exn + nat"

record app_state =
  translated_total_pages :: nat
  translated_current_page :: nat

text \<open>
  The calls the worker schedules. \<open>ShowErrorOfE\<close> is the call of line 373,
  \<^verbatim>\<open>lambda: messagebox.showerror("Error", str(e))\<close>: the lambda holds no message, it reads
  the variable \<^verbatim>\<open>e\<close> of \<^verbatim>\<open>process_translation\<close> when Tk runs it.
\<close>

datatype ui_event =
    SetProgress rat
  | ShowErrorOfE
  | ShowInfo pystr
  | DisplayTranslatedPreview nat
  | PrevTransButtonEnabled bool
  | NextTransButtonEnabled bool
  | SaveButtonNormal
  | TranslateButtonNormal

text \<open>
  Lines 372-376: the handler of any exception, then the \<^verbatim>\<open>finally\<close> clause. It does not
  depend on the exception: the lambda it schedules reads \<^verbatim>\<open>e\<close> later.
\<close>

definition on_exception :: "ui_event list" where
  "on_exception = [ShowErrorOfE, SetProgress 0, TranslateButtonNormal]"

text \<open>Lines 353-371 and 376: what follows a successful rendering.\<close>

definition after_render ::
  "(exn + nat) \<Rightarrow> pystr \<Rightarrow> app_state \<Rightarrow> app_state \<times> ui_event list" where
  "after_render pages output_pdf_path app =
     (let total = (case pages of Inl e \<Rightarrow> 1 | Inr k \<Rightarrow> k) in
      (app\<lparr>translated_total_pages := total, translated_current_page := 1\<rparr>,
       [SetProgress 100,
        ShowInfo (lit ''Translated PDF saved as '' @ output_pdf_path),
        DisplayTranslatedPreview 1,
        PrevTransButtonEnabled (1 < total),
        NextTransButtonEnabled (1 < total),
        SaveButtonNormal,
        TranslateButtonNormal]))"

text \<open>
  The result of a run: the fields of the application, the calls scheduled, and the
  exception the handler of line 372 caught, if one was raised (the value of \<^verbatim>\<open>e\<close> inside
  the \<^verbatim>\<open>except\<close> block).
\<close>

definition process_translation ::
  "('img, 'tr) pipeline_env \<Rightarrow> pystr \<Rightarrow> pystr \<Rightarrow> pystr \<Rightarrow> app_state
     \<Rightarrow> app_state \<times> ui_event list \<times> exn option" where
  "process_translation env source_lang target_lang output_pdf_path app =
     (case extract_text_from_pdf (acquisition env) True of
        (evs, Inl e) \<Rightarrow> (app, map SetProgress (reported evs) @ on_exception, Some e)
      | (evs, Inr extracted_text) \<Rightarrow>
          (case translate_text (translation env) extracted_text source_lang target_lang of
             (tevs, Inl e) \<Rightarrow>
               (app, map SetProgress (reported evs) @ [SetProgress 50] @ on_exception, Some e)
           | (tevs, Inr translated_text) \<Rightarrow>
               (case create_translated_pdf (doc_build env) translated_text of
                  Inl e \<Rightarrow>
                    (app, map SetProgress (reported evs) @ [SetProgress 50, SetProgress 75]
                          @ on_exception, Some e)
                | Inr story \<Rightarrow>
                    (case after_render (output_pages env) output_pdf_path app of
                       (app', ui) \<Rightarrow>
                         (app', map SetProgress (reported evs)
                                @ [SetProgress 50, SetProgress 75] @ ui, None)))))"

text \<open>
  The variable \<^verbatim>\<open>e\<close> when Tk runs a scheduled call. Python unbinds the name of
  \<^verbatim>\<open>except Exception as e\<close> at the end of the \<^verbatim>\<open>except\<close> block, and line 374 is the last
  statement of the block: \<^verbatim>\<open>e\<close> holds the exception caught while the worker is still inside
  the block, and nothing once the worker has left it.
\<close>

definition e_when_run :: "bool \<Rightarrow> exn option \<Rightarrow> exn option" where
  "e_when_run handler_left caught = (if handler_left then None else caught)"

text \<open>
  What running the lambda of line 373 does, given the variable \<^verbatim>\<open>e\<close> at that time: the
  error dialog with \<^verbatim>\<open>str(e)\<close>, or a \<^verbatim>\<open>NameError\<close> for the unbound \<^verbatim>\<open>e\<close>, which Tk
  reports on the console, and no dialog.
\<close>

datatype lambda_outcome =
    ErrorDialog pystr
  | NameErrorNoDialog

definition run_show_error :: "exn option \<Rightarrow> lambda_outcome" where
  "run_show_error e_cell = (case e_cell of Some e \<Rightarrow> ErrorDialog e | None \<Rightarrow> NameErrorNoDialog)"

text \<open>The progress values among the scheduled calls, in order.\<close>

fun progress_of :: "ui_event list \<Rightarrow> rat list" where
  "progress_of [] = []"
| "progress_of (SetProgress v # es) = v # progress_of es"
| "progress_of (e # es) = progress_of es"

section \<open>Notions the properties are stated with\<close>

text \<open>
  Page \<open>i\<close> takes the \<^verbatim>\<open>else\<close> branch of line 101: direct extraction returned
  \<^verbatim>\<open>None\<close>, the empty string or whitespace only (and did not raise).
\<close>

definition needs_ocr :: "'img pdf_env \<Rightarrow> nat \<Rightarrow> bool" where
  "needs_ocr env i =
     (case extract_text env i of
        Inl e \<Rightarrow> False
      | Inr None \<Rightarrow> True
      | Inr (Some t) \<Rightarrow> t = [] \<or> strip t = [])"

text \<open>
  The exception that rasterizing page \<open>i\<close> or recognising its first image raises, if one
  of them raises.
\<close>

definition ocr_failure :: "'img pdf_env \<Rightarrow> nat \<Rightarrow> exn option" where
  "ocr_failure env i =
     (case convert_from_path env i of
        Inl e \<Rightarrow> Some e
      | Inr [] \<Rightarrow> None
      | Inr (img # rest) \<Rightarrow>
          (case image_to_string env img of Inl e \<Rightarrow> Some e | Inr s \<Rightarrow> None))"

text \<open>
  Page \<open>i\<close> raises nothing: direct extraction returns, and when the page takes the
  \<^verbatim>\<open>else\<close> branch neither the rasterizer nor the recogniser raises.
\<close>

definition page_completes :: "'img pdf_env \<Rightarrow> nat \<Rightarrow> bool" where
  "page_completes env i =
     (case extract_text env i of
        Inl e \<Rightarrow> False
      | Inr page_text \<Rightarrow> \<not> needs_ocr env i \<or> ocr_failure env i = None)"

text \<open>
  What the proofs use of the float rounding on the values of the program: it is monotone on
  the non-negative numbers, exact on 0, 1 and 50, and between \<open>lo\<close> and 50 its relative
  error is at most \<open>2 ^ (-53)\<close>.
\<close>

definition rounds_like_binary64 :: "(rat \<Rightarrow> rat) \<Rightarrow> rat \<Rightarrow> bool" where
  "rounds_like_binary64 rnd lo \<longleftrightarrow>
     mono_on {0..} rnd \<and> rnd 0 = 0 \<and> rnd 1 = 1 \<and> rnd 50 = 50 \<and>
     (\<forall>x. lo \<le> x \<and> x \<le> 50 \<longrightarrow> \<bar>rnd x - x\<bar> \<le> x / 2 ^ 53)"

text \<open>The text recognised on the first image of page \<open>i\<close>, when there is an image.\<close>

definition recognised :: "'img pdf_env \<Rightarrow> nat \<Rightarrow> pystr option" where
  "recognised env i =
     (case convert_from_path env i of
        Inl e \<Rightarrow> None
      | Inr [] \<Rightarrow> None
      | Inr (img # rest) \<Rightarrow>
          (case image_to_string env img of Inl e \<Rightarrow> None | Inr s \<Rightarrow> Some s))"

text \<open>
  The text of page \<open>i\<close> as the per-page policy describes it: the directly extracted text
  when it is not blank, the recognised text otherwise.
\<close>

definition acquired_text :: "'img pdf_env \<Rightarrow> nat \<Rightarrow> pystr option" where
  "acquired_text env i =
     (case extract_text env i of
        Inl e \<Rightarrow> None
      | Inr page_text \<Rightarrow> if needs_ocr env i then recognised env i else page_text)"

section \<open>Example documents\<close>

text \<open>
  Three pages; page 2 has only blanks as embedded text and an image on which ``Hola'' is
  recognised. An image is named by a number. Floats are exact here.
\<close>

definition sample_pdf :: "nat pdf_env" where
  "sample_pdf =
     \<lparr>num_pages = Inr 3,
      extract_text = (\<lambda>i. if i = 2 then Inr (Some (lit ''  '')) else Inr (Some (lit ''Uno''))),
      convert_from_path = (\<lambda>i. Inr [i]),
      image_to_string = (\<lambda>img. Inr (lit ''Hola'')),
      fl = (\<lambda>x. x)\<rparr>"

text \<open>One page whose direct extraction raises, although recognition would succeed.\<close>

definition raising_pdf :: "nat pdf_env" where
  "raising_pdf = sample_pdf\<lparr>num_pages := Inr 1, extract_text := (\<lambda>i. Inl (lit ''boom''))\<rparr>"

text \<open>Every page has embedded text.\<close>

definition direct_pdf :: "nat pdf_env" where
  "direct_pdf = sample_pdf\<lparr>extract_text := (\<lambda>i. Inr (Some (lit ''Uno'')))\<rparr>"

text \<open>The rasterizer returns no image.\<close>

definition empty_raster_pdf :: "nat pdf_env" where
  "empty_raster_pdf = sample_pdf\<lparr>convert_from_path := (\<lambda>i. Inr [])\<rparr>"

text \<open>The recogniser raises.\<close>

definition ocr_failing_pdf :: "nat pdf_env" where
  "ocr_failing_pdf =
     sample_pdf\<lparr>image_to_string := (\<lambda>img. Inl (lit ''tesseract is not installed''))\<rparr>"

text \<open>One page without embedded text on which only a blank is recognised.\<close>

definition blank_pdf :: "nat pdf_env" where
  "blank_pdf = sample_pdf\<lparr>num_pages := Inr 1, extract_text := (\<lambda>i. Inr None),
     image_to_string := (\<lambda>img. Inr (lit '' ''))\<rparr>"

text \<open>The three-page example with the floats of CPython.\<close>

definition float_pdf :: "nat pdf_env" where
  "float_pdf = sample_pdf\<lparr>fl := fl64\<rparr>"

text \<open>The rasterizer raises.\<close>

definition raster_failing_pdf :: "nat pdf_env" where
  "raster_failing_pdf =
     sample_pdf\<lparr>convert_from_path := (\<lambda>i. Inl (lit ''Unable to get page count''))\<rparr>"

text \<open>
  Twelve pages with embedded text except the last, which has none and on which the
  recogniser raises.
\<close>

definition long_pdf :: "nat pdf_env" where
  "long_pdf =
     \<lparr>num_pages = Inr 12,
      extract_text = (\<lambda>i. if i = 12 then Inr None else Inr (Some (lit ''Uno''))),
      convert_from_path = (\<lambda>i. Inr [i]),
      image_to_string = (\<lambda>img. Inl (lit ''tesseract is not installed'')),
      fl = fl64\<rparr>"

text \<open>The three-page example, except that direct extraction raises on page 3.\<close>

definition late_raising_pdf :: "nat pdf_env" where
  "late_raising_pdf =
     sample_pdf\<lparr>extract_text :=
       (\<lambda>i. if i = 3 then Inl (lit ''boom'') else extract_text sample_pdf i)\<rparr>"

section \<open>Example translation runtimes\<close>

definition english :: language where
  "english = \<lparr>code = lit ''en'', lang_name = lit ''English''\<rparr>"

definition spanish :: language where
  "spanish = \<lparr>code = lit ''es'', lang_name = lit ''Spanish''\<rparr>"

text \<open>
  English and Spanish are installed, with the package from Spanish to English only: there
  is no translation from English to Spanish. A translation is named by a number.
\<close>

definition argos :: "nat translate_env" where
  "argos =
     \<lparr>get_installed_languages = Inr [english, spanish],
      get_translation =
        (\<lambda>a b. if code a = lit ''es'' \<and> code b = lit ''en'' then Inr (Some 1) else Inr None),
      translate = (\<lambda>t s. Inr (lit ''Hello''))\<rparr>"

text \<open>
  Every pair has a translation, and translating raises an exception whose text is that of
  the \<^verbatim>\<open>AttributeError\<close> on \<^verbatim>\<open>None\<close>.
\<close>

definition argos_failing :: "nat translate_env" where
  "argos_failing =
     argos\<lparr>get_translation := (\<lambda>a b. Inr (Some 2)),
            translate := (\<lambda>t s. Inl none_translate_message)\<rparr>"

section \<open>The rendering as the design words it\<close>


section \<open>An example run\<close>

text \<open>
  The three-page example, the runtime with the package from Spanish to English, a
  ReportLab that writes the file, and an output of one page.
\<close>

definition sample_run :: "(nat, nat) pipeline_env" where
  "sample_run =
     \<lparr>acquisition = sample_pdf, translation = argos,
      doc_build = (\<lambda>story. Inr ()), output_pages = Inr 1\<rparr>"

text \<open>The fields of the application as \<^verbatim>\<open>__init__\<close> sets them (lines 162-163).\<close>

definition fresh_app :: app_state where
  "fresh_app = \<lparr>translated_total_pages = 0, translated_current_page = 1\<rparr>"

section \<open>The float rounding is monotone and accurate\<close>

lemma two_powi_pos: "(0::rat) < 2 powi e"
  by simp

lemma two_powi_nat: "0 \<le> e \<Longrightarrow> (2::rat) powi e = 2 ^ nat e"
  by (simp add: power_int_def)

lemma two_powi_mult: "(2::rat) powi a * 2 powi b = 2 powi (a + b)"
  by (simp add: power_int_add)

lemma two_powi_div: "(2::rat) powi a / 2 powi b = 2 powi (a - b)"
  by (simp add: power_int_diff)

lemma two_powi_52: "(2::rat) powi 52 = 2 ^ 52" and two_powi_53: "(2::rat) powi 53 = 2 ^ 53"
  by (simp_all add: power_int_def)

lemma bitlen_rat_bounds:
  assumes "0 < p"
  shows "(2::rat) powi (bitlen p - 1) \<le> of_int p \<and> of_int p < (2::rat) powi bitlen p"
proof -
  have b: "2 ^ nat (bitlen p - 1) \<le> p \<and> p < 2 ^ nat (bitlen p)"
    using bitlen_bounds[OF assms] .
  have pos: "1 \<le> bitlen p"
    using assms bitlen_nonneg[of p] bitlen_eq_zero_iff[of p] by linarith
  have "(of_int (2 ^ nat (bitlen p - 1)) :: rat) \<le> of_int p"
    using b by (simp only: of_int_le_iff)
  then have l: "(2::rat) powi (bitlen p - 1) \<le> of_int p"
    using pos by (simp add: two_powi_nat)
  have "(of_int p :: rat) < of_int (2 ^ nat (bitlen p))"
    using b by (simp only: of_int_less_iff)
  then have u: "of_int p < (2::rat) powi bitlen p"
    using pos by (simp add: two_powi_nat)
  from l u show ?thesis by blast
qed

lemma exponent_bounds:
  assumes "0 < x"
  shows "2 powi exponent x \<le> x \<and> x < 2 powi (exponent x + 1)"
proof -
  obtain p q where pq: "quotient_of x = (p, q)" by (cases "quotient_of x")
  have q: "0 < q" using pq by (rule quotient_of_denom_pos)
  have x: "x = of_int p / of_int q" using pq by (rule quotient_of_div)
  have p: "0 < p"
    using assms q x by (simp add: zero_less_divide_iff)
  let ?d = "bitlen p - bitlen q"
  note bp = bitlen_rat_bounds[OF p]
  note bq = bitlen_rat_bounds[OF q]
  have qpos: "(0::rat) < of_int q" using q by simp
  have "x < 2 powi bitlen p / 2 powi (bitlen q - 1)"
  proof -
    have "x < 2 powi bitlen p / of_int q"
      unfolding x using bp qpos by (simp add: divide_strict_right_mono)
    also have "\<dots> \<le> 2 powi bitlen p / 2 powi (bitlen q - 1)"
      using bq q by (intro divide_left_mono) (simp_all add: zero_less_mult_iff)
    finally show ?thesis .
  qed
  also have "2 powi bitlen p / 2 powi (bitlen q - 1) = (2::rat) powi (?d + 1)"
  proof -
    have "bitlen p - (bitlen q - 1) = ?d + 1" by simp
    then show ?thesis by (simp only: two_powi_div)
  qed
  finally have up: "x < 2 powi (?d + 1)" .
  have "(2::rat) powi (?d - 1) = 2 powi (bitlen p - 1) / 2 powi bitlen q"
  proof -
    have "bitlen p - 1 - bitlen q = ?d - 1" by simp
    then show ?thesis by (simp only: two_powi_div)
  qed
  also have "\<dots> \<le> of_int p / 2 powi bitlen q"
    using bp by (simp add: divide_right_mono)
  also have "\<dots> \<le> x"
    unfolding x using bq p q by (intro divide_left_mono) (simp_all add: zero_less_mult_iff)
  finally have lo: "2 powi (?d - 1) \<le> x" .
  show ?thesis
  proof (cases "2 powi ?d \<le> x")
    case True
    then have "exponent x = ?d" by (simp add: exponent_def pq)
    with True up show ?thesis by simp
  next
    case False
    then have "exponent x = ?d - 1" by (simp add: exponent_def pq)
    with False lo show ?thesis by simp
  qed
qed

lemma round_half_even_error: "\<bar>of_int (round_half_even y) - y\<bar> \<le> 1 / 2"
proof -
  have "of_int \<lfloor>y\<rfloor> \<le> y" "y < of_int \<lfloor>y\<rfloor> + 1" by linarith+
  then show ?thesis
    by (auto simp: round_half_even_def Let_def)
qed

lemma round_half_even_int: "round_half_even (of_int k) = k"
  by (simp add: round_half_even_def)

lemma round_half_even_range: "\<lfloor>y\<rfloor> \<le> round_half_even y \<and> round_half_even y \<le> \<lfloor>y\<rfloor> + 1"
  by (simp add: round_half_even_def Let_def)

lemma round_half_even_mono:
  assumes "y \<le> z"
  shows "round_half_even y \<le> round_half_even z"
proof (cases "\<lfloor>y\<rfloor> = \<lfloor>z\<rfloor>")
  case True
  then show ?thesis
    using assms by (auto simp: round_half_even_def Let_def)
next
  case False
  then have "\<lfloor>y\<rfloor> + 1 \<le> \<lfloor>z\<rfloor>"
    using floor_mono[OF assms] by linarith
  then show ?thesis
    using round_half_even_range[of y] round_half_even_range[of z] by linarith
qed

lemma fl64_pos_eq:
  "0 < x \<Longrightarrow>
   fl64 x = of_int (round_half_even (x * 2 powi (52 - exponent x))) * 2 powi (exponent x - 52)"
  by (simp add: fl64_def Let_def)

lemma scaled_range:
  assumes "0 < x"
  shows "(2::rat) ^ 52 \<le> x * 2 powi (52 - exponent x) \<and> x * 2 powi (52 - exponent x) < 2 ^ 53"
proof -
  let ?e = "exponent x"
  note b = exponent_bounds[OF assms]
  have "2 powi ?e * 2 powi (52 - ?e) \<le> x * 2 powi (52 - ?e)"
    using b by (intro mult_right_mono) simp_all
  moreover have "(2::rat) powi ?e * 2 powi (52 - ?e) = 2 ^ 52"
  proof -
    have "?e + (52 - ?e) = 52" by simp
    then show ?thesis by (simp only: two_powi_mult two_powi_52)
  qed
  moreover have "x * 2 powi (52 - ?e) < 2 powi (?e + 1) * 2 powi (52 - ?e)"
    using b by (intro mult_strict_right_mono) simp_all
  moreover have "(2::rat) powi (?e + 1) * 2 powi (52 - ?e) = 2 ^ 53"
  proof -
    have "?e + 1 + (52 - ?e) = 53" by simp
    then show ?thesis by (simp only: two_powi_mult two_powi_53)
  qed
  ultimately show ?thesis by (simp only:)
qed

lemma mantissa_range:
  assumes "0 < x"
  shows "2 ^ 52 \<le> round_half_even (x * 2 powi (52 - exponent x)) \<and>
         round_half_even (x * 2 powi (52 - exponent x)) \<le> 2 ^ 53"
proof -
  note s = scaled_range[OF assms]
  have "round_half_even (of_int (2 ^ 52)) \<le> round_half_even (x * 2 powi (52 - exponent x))"
    using s by (intro round_half_even_mono) simp
  moreover have "round_half_even (x * 2 powi (52 - exponent x)) \<le> round_half_even (of_int (2 ^ 53))"
    using s by (intro round_half_even_mono) simp
  ultimately show ?thesis
    by (simp only: round_half_even_int)
qed

lemma fl64_range:
  assumes "0 < x"
  shows "2 powi exponent x \<le> fl64 x \<and> fl64 x \<le> 2 powi (exponent x + 1)"
proof -
  let ?e = "exponent x"
  let ?m = "round_half_even (x * 2 powi (52 - ?e))"
  note m = mantissa_range[OF assms]
  have "(of_int (2 ^ 52) :: rat) \<le> of_int ?m" "(of_int ?m :: rat) \<le> of_int (2 ^ 53)"
    using m by (simp_all only: of_int_le_iff)
  then have "(2::rat) ^ 52 * 2 powi (?e - 52) \<le> of_int ?m * 2 powi (?e - 52)"
    "of_int ?m * 2 powi (?e - 52) \<le> (2::rat) ^ 53 * 2 powi (?e - 52)"
    by (simp_all add: mult_right_mono)
  moreover have "(2::rat) ^ 52 * 2 powi (?e - 52) = 2 powi ?e"
  proof -
    have "52 + (?e - 52) = ?e" by simp
    then show ?thesis by (simp only: two_powi_52[symmetric] two_powi_mult)
  qed
  moreover have "(2::rat) ^ 53 * 2 powi (?e - 52) = 2 powi (?e + 1)"
  proof -
    have "53 + (?e - 52) = ?e + 1" by simp
    then show ?thesis by (simp only: two_powi_53[symmetric] two_powi_mult)
  qed
  ultimately show ?thesis
    by (simp only: fl64_pos_eq[OF assms])
qed

lemma fl64_error:
  assumes "0 < x"
  shows "\<bar>fl64 x - x\<bar> \<le> x / 2 ^ 53"
proof -
  let ?e = "exponent x"
  let ?s = "x * 2 powi (52 - ?e)"
  let ?m = "round_half_even ?s"
  have unscale: "?s * 2 powi (?e - 52) = x"
  proof -
    have "52 - ?e + (?e - 52) = 0" by simp
    then have "(2::rat) powi (52 - ?e) * 2 powi (?e - 52) = 1"
      by (simp only: two_powi_mult power_int_0_right)
    then show ?thesis by (simp add: mult.assoc)
  qed
  have "\<bar>fl64 x - x\<bar> = \<bar>of_int ?m * 2 powi (?e - 52) - ?s * 2 powi (?e - 52)\<bar>"
    by (simp only: fl64_pos_eq[OF assms] unscale)
  also have "\<dots> = \<bar>of_int ?m - ?s\<bar> * 2 powi (?e - 52)"
    by (simp add: left_diff_distrib[symmetric] abs_mult)
  also have "\<dots> \<le> 1 / 2 * 2 powi (?e - 52)"
    using round_half_even_error[of ?s] by (intro mult_right_mono) simp_all
  also have "\<dots> = 2 powi ?e / 2 ^ 53"
  proof -
    have "?e - 52 = ?e - 53 + 1" by simp
    then have "(2::rat) powi (?e - 52) = 2 powi (?e - 53) * 2 powi 1"
      by (simp only: two_powi_mult)
    moreover have "(2::rat) powi (?e - 53) = 2 powi ?e / 2 ^ 53"
      by (simp only: two_powi_div[symmetric] two_powi_53)
    ultimately show ?thesis by simp
  qed
  also have "\<dots> \<le> x / 2 ^ 53"
    using exponent_bounds[OF assms] by (simp add: divide_right_mono)
  finally show ?thesis .
qed

lemma exponent_mono:
  assumes "0 < x" and "x \<le> y"
  shows "exponent x \<le> exponent y"
proof (rule ccontr)
  assume "\<not> exponent x \<le> exponent y"
  then have "exponent y + 1 \<le> exponent x" by simp
  then have "(2::rat) powi (exponent y + 1) \<le> 2 powi exponent x"
    by (intro power_int_increasing) simp_all
  moreover have "y < 2 powi (exponent y + 1)" "2 powi exponent x \<le> x"
    using exponent_bounds[of x] exponent_bounds[of y] assms by simp_all
  ultimately show False using assms(2) by linarith
qed

lemma fl64_mono_pos:
  assumes "0 < x" and "x \<le> y"
  shows "fl64 x \<le> fl64 y"
proof -
  have y: "0 < y" using assms by simp
  show ?thesis
  proof (cases "exponent x = exponent y")
    case True
    have "x * 2 powi (52 - exponent y) \<le> y * 2 powi (52 - exponent y)"
      using assms(2) by (intro mult_right_mono) simp_all
    then have "round_half_even (x * 2 powi (52 - exponent y)) \<le>
        round_half_even (y * 2 powi (52 - exponent y))"
      by (rule round_half_even_mono)
    then have "(of_int (round_half_even (x * 2 powi (52 - exponent y))) :: rat) \<le>
        of_int (round_half_even (y * 2 powi (52 - exponent y)))"
      by (simp only: of_int_le_iff)
    then show ?thesis
      by (simp add: fl64_pos_eq[OF assms(1)] fl64_pos_eq[OF y] True mult_right_mono)
  next
    case False
    then have "exponent x + 1 \<le> exponent y"
      using exponent_mono[OF assms] by simp
    then have "(2::rat) powi (exponent x + 1) \<le> 2 powi exponent y"
      by (intro power_int_increasing) simp_all
    then show ?thesis
      using fl64_range[OF assms(1)] fl64_range[OF y] by linarith
  qed
qed

lemma fl64_zero: "fl64 0 = 0"
  by (simp add: fl64_def)

lemma fl64_nonneg: "0 \<le> x \<Longrightarrow> 0 \<le> fl64 x"
proof (cases "x = 0")
  case True
  then show ?thesis by (simp add: fl64_zero)
next
  case False
  assume "0 \<le> x"
  with False have p: "0 < x" by simp
  have "(0::rat) < 2 powi exponent x" by simp
  then show ?thesis using fl64_range[OF p] by linarith
qed

lemma fl64_mono:
  assumes "0 \<le> x" and "x \<le> y"
  shows "fl64 x \<le> fl64 y"
proof (cases "x = 0")
  case True
  then show ?thesis using assms fl64_nonneg[of y] by (simp add: fl64_zero)
next
  case False
  then show ?thesis using assms fl64_mono_pos[of x y] by simp
qed

lemma fl64_one: "fl64 1 = 1"
  by code_simp

lemma fl64_fifty: "fl64 50 = 50"
  by code_simp

lemma fl64_rounds: "0 \<le> lo \<Longrightarrow> rounds_like_binary64 fl64 lo"
proof -
  assume lo: "0 \<le> lo"
  have m: "mono_on {0..} fl64"
    by (rule mono_onI) (simp add: fl64_mono)
  have e: "\<forall>x. lo \<le> x \<and> x \<le> 50 \<longrightarrow> \<bar>fl64 x - x\<bar> \<le> x / 2 ^ 53"
  proof (intro allI impI)
    fix x :: rat
    assume "lo \<le> x \<and> x \<le> 50"
    then have "0 \<le> x" using lo by simp
    show "\<bar>fl64 x - x\<bar> \<le> x / 2 ^ 53"
    proof (cases "x = 0")
      case True
      then show ?thesis by (simp add: fl64_zero)
    next
      case False
      with \<open>0 \<le> x\<close> have "0 < x" by simp
      then show ?thesis by (rule fl64_error)
    qed
  qed
  show ?thesis
    unfolding rounds_like_binary64_def using m e fl64_zero fl64_one fl64_fifty by blast
qed

section \<open>Strings and page numbers\<close>

lemma set_page_numbers: "set (page_numbers n) = {1..n}"
  by (auto simp: page_numbers_def)

lemma length_page_numbers: "length (page_numbers n) = n"
  by (simp add: page_numbers_def del: upt_Suc)

lemma take_page_numbers: "k \<le> n \<Longrightarrow> take k (page_numbers n) = page_numbers k"
  by (simp add: page_numbers_def take_upt del: upt_Suc)

lemma sorted_page_numbers: "sorted (page_numbers n)"
  by (simp add: page_numbers_def del: upt_Suc)

lemma page_numbers_1: "page_numbers (Suc 0) = [Suc 0]"
  by (simp add: page_numbers_def)

lemma page_numbers_3: "page_numbers 3 = [1, 2, 3]"
  by code_simp

lemma page_numbers_split:
  assumes "1 \<le> i" and "i \<le> n"
  shows "page_numbers n = page_numbers (i - 1) @ i # [Suc i..<Suc n]"
proof -
  have "i + (Suc n - i) = Suc n" using assms by simp
  then have "[1..<Suc n] = [1..<i] @ [i..<Suc n]"
    using upt_add_eq_append[of 1 i "Suc n - i"] assms(1) by simp
  moreover have "[i..<Suc n] = i # [Suc i..<Suc n]"
    using assms by (simp add: upt_conv_Cons del: upt_Suc)
  moreover have "[1..<i] = page_numbers (i - 1)"
    using assms by (simp add: page_numbers_def del: upt_Suc)
  ultimately show ?thesis by (simp add: page_numbers_def del: upt_Suc)
qed


lemma strip_nonempty_arg: "strip t \<noteq> [] \<Longrightarrow> t \<noteq> []"
  by (auto simp: strip_def)

lemmas eval_acq = extract_text_from_pdf_def page_numbers_1 page_numbers_3 page_body_def ocr_fallback_def
  report_def progress_value_def strip_def isspace_def lit_def extraction_error_def
  no_text_error_def ocr_error_def needs_ocr_def

lemmas eval_pages = page_completes_def needs_ocr_def ocr_failure_def strip_def isspace_def lit_def

section \<open>The body of the page loop\<close>

lemma page_body_direct:
  "extract_text env i = Inr (Some t) \<Longrightarrow> strip t \<noteq> [] \<Longrightarrow>
   page_body env cb n i text = (Extract i # report env cb n i, Inr (text @ t @ [10]))"
  by (auto simp: page_body_def dest: strip_nonempty_arg)

lemma page_body_raise:
  "extract_text env i = Inl e \<Longrightarrow> page_body env cb n i text = ([Extract i], Inl e)"
  by (simp add: page_body_def)

lemma page_body_fallback:
  "needs_ocr env i \<Longrightarrow>
   page_body env cb n i text =
     (case ocr_fallback env i text of
        (evs, Inl e) \<Rightarrow> (Extract i # evs, Inl e)
      | (evs, Inr text') \<Rightarrow> (Extract i # evs @ report env cb n i, Inr text'))"
  by (auto simp: page_body_def needs_ocr_def split: sum.splits option.splits)

lemma ocr_fallback_recognised:
  "recognised env i = Some s \<Longrightarrow> snd (ocr_fallback env i acc) = Inr (acc @ s @ [10])"
  by (auto simp: recognised_def ocr_fallback_def split: sum.splits list.splits)

lemma page_body_acquired:
  assumes "acquired_text env i = Some s"
  shows "snd (page_body env cb n i acc) = Inr (acc @ s @ [10])"
proof (cases "needs_ocr env i")
  case True
  then have "recognised env i = Some s"
    using assms by (auto simp: acquired_text_def split: sum.splits)
  then have "snd (ocr_fallback env i acc) = Inr (acc @ s @ [10])"
    by (rule ocr_fallback_recognised)
  then show ?thesis
    using page_body_fallback[OF True, of cb n acc] by (auto split: prod.splits sum.splits)
next
  case False
  then have "extract_text env i = Inr (Some s)" "strip s \<noteq> []"
    using assms by (auto simp: acquired_text_def needs_ocr_def split: sum.splits option.splits)
  then show ?thesis by (simp add: page_body_direct)
qed

lemma pages_loop_acquired:
  "\<forall>j\<in>set idxs. acquired_text env j = Some (txt j) \<Longrightarrow>
   snd (pages_loop env cb n idxs acc) = Inr (acc @ concat (map (\<lambda>j. txt j @ [10]) idxs))"
proof (induction idxs arbitrary: acc)
  case Nil
  then show ?case by simp
next
  case (Cons i rest)
  have "snd (page_body env cb n i acc) = Inr (acc @ txt i @ [10])"
    using Cons.prems by (simp add: page_body_acquired)
  moreover have "snd (pages_loop env cb n rest (acc @ txt i @ [10])) =
      Inr ((acc @ txt i @ [10]) @ concat (map (\<lambda>j. txt j @ [10]) rest))"
    using Cons.prems by (intro Cons.IH) simp
  ultimately show ?case
    by (auto split: prod.splits sum.splits)
qed

lemma pages_loop_append:
  "pages_loop env cb n (xs @ ys) acc =
     (case pages_loop env cb n xs acc of
        (evs, Inl e) \<Rightarrow> (evs, Inl e)
      | (evs, Inr acc') \<Rightarrow>
          (case pages_loop env cb n ys acc' of (evs', r) \<Rightarrow> (evs @ evs', r)))"
proof (induction xs arbitrary: acc)
  case Nil
  then show ?case by (simp split: prod.splits)
next
  case (Cons x xs)
  then show ?case by (simp split: prod.splits sum.splits)
qed

lemma page_body_completes:
  assumes "page_completes env i"
  shows "\<exists>evs acc'. page_body env cb n i acc = (evs, Inr acc')"
proof (cases "needs_ocr env i")
  case True
  then have "ocr_failure env i = None"
    using assms by (auto simp: page_completes_def split: sum.splits)
  then obtain evs acc' where "ocr_fallback env i acc = (evs, Inr acc')"
    by (auto simp: ocr_failure_def ocr_fallback_def split: sum.splits list.splits)
  then show ?thesis
    using page_body_fallback[OF True, of cb n acc] by simp
next
  case False
  then obtain t where "extract_text env i = Inr (Some t)" "strip t \<noteq> []"
    using assms by (auto simp: page_completes_def needs_ocr_def split: sum.splits option.splits)
  then show ?thesis by (simp add: page_body_direct)
qed

lemma pages_loop_completes:
  "\<forall>j\<in>set xs. page_completes env j \<Longrightarrow>
   \<exists>evs acc'. pages_loop env cb n xs acc = (evs, Inr acc')"
proof (induction xs arbitrary: acc)
  case Nil
  then show ?case by simp
next
  case (Cons x xs)
  obtain evs acc' where b: "page_body env cb n x acc = (evs, Inr acc')"
    using page_body_completes[of env x cb n acc] Cons.prems by auto
  obtain evs' acc'' where "pages_loop env cb n xs acc' = (evs', Inr acc'')"
    using Cons.IH[of acc'] Cons.prems by auto
  with b show ?case by simp
qed

lemma extract_event_page_body:
  "Extract k \<in> set (fst (page_body env cb n i acc)) \<Longrightarrow> k = i"
  by (auto simp: page_body_def ocr_fallback_def report_def
      split: sum.splits option.splits list.splits if_splits)

lemma extract_event_pages_loop:
  "Extract k \<in> set (fst (pages_loop env cb n xs acc)) \<Longrightarrow> k \<in> set xs"
proof (induction xs arbitrary: acc)
  case Nil
  then show ?case by simp
next
  case (Cons x xs)
  obtain evs r where b: "page_body env cb n x acc = (evs, r)"
    by (cases "page_body env cb n x acc")
  show ?case
  proof (cases r)
    case (Inl e)
    with Cons.prems b have "Extract k \<in> set (fst (page_body env cb n x acc))" by simp
    then show ?thesis using extract_event_page_body by fastforce
  next
    case (Inr acc')
    obtain evs' r' where l: "pages_loop env cb n xs acc' = (evs', r')"
      by (cases "pages_loop env cb n xs acc'")
    from Cons.prems b Inr l have "Extract k \<in> set evs \<or> Extract k \<in> set evs'" by simp
    then show ?thesis
    proof
      assume "Extract k \<in> set evs"
      then have "Extract k \<in> set (fst (page_body env cb n x acc))" using b by simp
      then show ?thesis using extract_event_page_body by fastforce
    next
      assume "Extract k \<in> set evs'"
      then have "k \<in> set xs" using Cons.IH[of acc'] l by simp
      then show ?thesis by simp
    qed
  qed
qed

lemma fails_at_page:
  assumes "num_pages env = Inr n" and "1 \<le> i" and "i \<le> n"
    and "\<forall>j. 1 \<le> j \<and> j < i \<longrightarrow> page_completes env j"
    and "\<And>acc. page_body env cb n i acc = (evs_i, Inl e)"
  shows "\<exists>evs. extract_text_from_pdf env cb = (evs @ evs_i, Inl (extraction_error e)) \<and>
           (\<forall>k. Extract k \<in> set evs \<longrightarrow> k < i)"
proof -
  have "\<forall>j\<in>set (page_numbers (i - 1)). page_completes env j"
    using assms(2,4) by (auto simp: set_page_numbers)
  then obtain evs acc' where pre: "pages_loop env cb n (page_numbers (i - 1)) [] = (evs, Inr acc')"
    using pages_loop_completes[of "page_numbers (i - 1)" env cb n "[]"] by blast
  have at: "pages_loop env cb n (i # [Suc i..<Suc n]) acc' = (evs_i, Inl e)"
    using assms(5)[of acc'] by simp
  have "pages_loop env cb n (page_numbers n) [] = (evs @ evs_i, Inl e)"
    unfolding page_numbers_split[OF assms(2,3)] pages_loop_append pre using at by simp
  then have r: "extract_text_from_pdf env cb = (evs @ evs_i, Inl (extraction_error e))"
    using assms(1) by (simp add: extract_text_from_pdf_def)
  have "\<forall>k. Extract k \<in> set evs \<longrightarrow> k < i"
  proof (intro allI impI)
    fix k
    assume "Extract k \<in> set evs"
    then have "k \<in> set (page_numbers (i - 1))"
      using extract_event_pages_loop[of k env cb n "page_numbers (i - 1)" "[]"] pre by simp
    then show "k < i" using assms(2) by (auto simp: set_page_numbers)
  qed
  with r show ?thesis by blast
qed

section \<open>Where the text of a page comes from\<close>

text \<open>
  Claim C1 as stated says that recognition is the fallback also when direct extraction
  fails. On a page whose \<^verbatim>\<open>page.extract_text()\<close> raises, the call is outside the inner
  \<^verbatim>\<open>try\<close>: the acquisition stops with the error of line 112, and neither the rasterizer
  nor the recogniser is called, although both would have succeeded.
\<close>

theorem extraction_raise_counterexample:
  "extract_text raising_pdf 1 = Inl (lit ''boom'') \<and>
   convert_from_path raising_pdf 1 = Inr [1] \<and>
   image_to_string raising_pdf 1 = Inr (lit ''Hola'') \<and>
   extract_text_from_pdf raising_pdf True =
     ([Extract 1], Inl (lit ''Error extracting text from PDF: boom''))"
  by (simp add: raising_pdf_def sample_pdf_def eval_acq)

lemma whole_document_text:
  assumes "num_pages env = Inr n" and "\<forall>j\<in>{1..n}. acquired_text env j = Some (txt j)"
  shows "snd (extract_text_from_pdf env cb) =
           (if strip (concat (map (\<lambda>j. txt j @ [10]) [1..<Suc n])) = []
            then Inl (lit ''No text could be extracted from the PDF.'')
            else Inr (concat (map (\<lambda>j. txt j @ [10]) [1..<Suc n])))"
proof -
  have "\<forall>j\<in>set (page_numbers n). acquired_text env j = Some (txt j)"
    using assms(2) by (simp add: set_page_numbers)
  from pages_loop_acquired[OF this, of cb n "[]"]
  have "snd (pages_loop env cb n (page_numbers n) []) =
      Inr (concat (map (\<lambda>j. txt j @ [10]) (page_numbers n)))"
    by simp
  then show ?thesis
    using assms(1)
    by (auto simp: extract_text_from_pdf_def no_text_error_def page_numbers_def
        simp del: upt_Suc split: prod.splits sum.splits)
qed

text \<open>
  Claim C1, amended. For page \<open>i\<close>: when direct extraction returns text that is not blank,
  that text and a line break are appended and nothing else is called; when it returns
  \<^verbatim>\<open>None\<close>, the empty string or only whitespace, and the rasterizer returns at least one
  image, the text recognised on the first image and a line break are appended. When the
  pages before \<open>i\<close> raise nothing and direct extraction raises \<open>e\<close> on page \<open>i\<close>, the whole
  function raises ``Error extracting text from PDF: '' followed by \<open>e\<close>, and the extraction on
  page \<open>i\<close> is its last call: neither the rasterizer nor the recogniser is tried there. For a
  document in which every page has a text in this sense, the function returns the
  concatenation of the pages' texts in page order, each followed by a line break (or raises
  the emptiness error when that is blank).
\<close>

theorem page_text_source:
  "(extract_text env i = Inr (Some t) \<and> strip t \<noteq> [] \<longrightarrow>
      page_body env cb n i acc =
        (Extract i # (if cb then [Report (fl env (fl env (of_nat i / of_nat n) * 50))] else []),
         Inr (acc @ t @ [10]))) \<and>
   (needs_ocr env i \<and> convert_from_path env i = Inr (img # others) \<and>
    image_to_string env img = Inr s \<longrightarrow>
      page_body env cb n i acc =
        (Extract i # Rasterize i # Recognize img #
           (if cb then [Report (fl env (fl env (of_nat i / of_nat n) * 50))] else []),
         Inr (acc @ s @ [10]))) \<and>
   (num_pages env = Inr n \<and> 1 \<le> i \<and> i \<le> n \<and>
    (\<forall>j. 1 \<le> j \<and> j < i \<longrightarrow> page_completes env j) \<and> extract_text env i = Inl e \<longrightarrow>
      (\<exists>evs. extract_text_from_pdf env cb =
                (evs @ [Extract i], Inl (lit ''Error extracting text from PDF: '' @ e)) \<and>
              (\<forall>k. Extract k \<in> set evs \<longrightarrow> k < i))) \<and>
   (num_pages env = Inr n \<and> (\<forall>j\<in>{1..n}. acquired_text env j = Some (txt j)) \<longrightarrow>
      snd (extract_text_from_pdf env cb) =
        (if strip (concat (map (\<lambda>j. txt j @ [10]) [1..<Suc n])) = []
         then Inl (lit ''No text could be extracted from the PDF.'')
         else Inr (concat (map (\<lambda>j. txt j @ [10]) [1..<Suc n]))))"
proof (intro conjI impI)
  assume "extract_text env i = Inr (Some t) \<and> strip t \<noteq> []"
  then show "page_body env cb n i acc =
        (Extract i # (if cb then [Report (fl env (fl env (of_nat i / of_nat n) * 50))] else []),
         Inr (acc @ t @ [10]))"
    by (simp add: page_body_direct report_def progress_value_def)
next
  assume a: "needs_ocr env i \<and> convert_from_path env i = Inr (img # others) \<and>
    image_to_string env img = Inr s"
  then have "ocr_fallback env i acc = ([Rasterize i, Recognize img], Inr (acc @ s @ [10]))"
    by (simp add: ocr_fallback_def)
  then show "page_body env cb n i acc =
        (Extract i # Rasterize i # Recognize img #
           (if cb then [Report (fl env (fl env (of_nat i / of_nat n) * 50))] else []),
         Inr (acc @ s @ [10]))"
    using a page_body_fallback[of env i cb n acc] by (simp add: report_def progress_value_def)
next
  assume a: "num_pages env = Inr n \<and> 1 \<le> i \<and> i \<le> n \<and>
    (\<forall>j. 1 \<le> j \<and> j < i \<longrightarrow> page_completes env j) \<and> extract_text env i = Inl e"
  then have b: "\<And>acc. page_body env cb n i acc = ([Extract i], Inl e)"
    by (simp add: page_body_raise)
  from a have h: "num_pages env = Inr n" "1 \<le> i" "i \<le> n"
    "\<forall>j. 1 \<le> j \<and> j < i \<longrightarrow> page_completes env j" by blast+
  from fails_at_page[OF h b]
  show "\<exists>evs. extract_text_from_pdf env cb =
                (evs @ [Extract i], Inl (lit ''Error extracting text from PDF: '' @ e)) \<and>
              (\<forall>k. Extract k \<in> set evs \<longrightarrow> k < i)"
    by (simp add: extraction_error_def)
next
  assume "num_pages env = Inr n \<and> (\<forall>j\<in>{1..n}. acquired_text env j = Some (txt j))"
  then show "snd (extract_text_from_pdf env cb) =
        (if strip (concat (map (\<lambda>j. txt j @ [10]) [1..<Suc n])) = []
         then Inl (lit ''No text could be extracted from the PDF.'')
         else Inr (concat (map (\<lambda>j. txt j @ [10]) [1..<Suc n])))"
    using whole_document_text[of env n "txt" cb] by blast
qed

text \<open>
  The four parts on the example documents: page 1 (embedded text) and page 2 (recognised
  text) of the three-page example, the document whose extraction raises on page 3 after two
  pages that complete, and the whole three-page example.
\<close>

theorem page_text_source_witness:
  "extract_text sample_pdf 1 = Inr (Some (lit ''Uno'')) \<and> strip (lit ''Uno'') \<noteq> [] \<and>
   page_body sample_pdf True 3 1 [] = ([Extract 1, Report (50 / 3)], Inr (lit ''Uno'' @ [10])) \<and>
   needs_ocr sample_pdf 2 \<and> convert_from_path sample_pdf 2 = Inr [2] \<and>
   image_to_string sample_pdf 2 = Inr (lit ''Hola'') \<and>
   page_body sample_pdf True 3 2 (lit ''Uno'' @ [10]) =
     ([Extract 2, Rasterize 2, Recognize 2, Report (100 / 3)],
      Inr (lit ''Uno'' @ [10] @ lit ''Hola'' @ [10])) \<and>
   num_pages late_raising_pdf = Inr 3 \<and> page_completes late_raising_pdf 1 \<and>
   page_completes late_raising_pdf 2 \<and> extract_text late_raising_pdf 3 = Inl (lit ''boom'') \<and>
   (\<exists>evs. extract_text_from_pdf late_raising_pdf True =
            (evs @ [Extract 3], Inl (lit ''Error extracting text from PDF: boom''))) \<and>
   num_pages sample_pdf = Inr 3 \<and>
   acquired_text sample_pdf 1 = Some (lit ''Uno'') \<and>
   acquired_text sample_pdf 2 = Some (lit ''Hola'') \<and>
   acquired_text sample_pdf 3 = Some (lit ''Uno'') \<and>
   snd (extract_text_from_pdf sample_pdf True) =
     Inr (lit ''Uno'' @ [10] @ lit ''Hola'' @ [10] @ lit ''Uno'' @ [10])"
proof -
  have h1: "extract_text sample_pdf 1 = Inr (Some (lit ''Uno'')) \<and> strip (lit ''Uno'') \<noteq> []"
    by (simp add: sample_pdf_def eval_pages)
  have h2: "needs_ocr sample_pdf 2 \<and> convert_from_path sample_pdf 2 = Inr (2 # []) \<and>
      image_to_string sample_pdf 2 = Inr (lit ''Hola'')"
    by (simp add: sample_pdf_def eval_pages)
  have h3a: "num_pages late_raising_pdf = Inr 3" "extract_text late_raising_pdf 3 = Inl (lit ''boom'')"
    by (simp_all add: late_raising_pdf_def sample_pdf_def)
  have h3b: "page_completes late_raising_pdf 1" "page_completes late_raising_pdf 2"
    by (simp_all add: late_raising_pdf_def sample_pdf_def eval_pages)
  have h3c: "\<forall>j. 1 \<le> j \<and> j < 3 \<longrightarrow> page_completes late_raising_pdf j"
  proof (intro allI impI)
    fix j :: nat
    assume "1 \<le> j \<and> j < 3"
    then have "j = 1 \<or> j = 2" by auto
    then show "page_completes late_raising_pdf j" using h3b by auto
  qed
  have h3: "num_pages late_raising_pdf = Inr 3 \<and> (1::nat) \<le> 3 \<and> (3::nat) \<le> 3 \<and>
      (\<forall>j. 1 \<le> j \<and> j < 3 \<longrightarrow> page_completes late_raising_pdf j) \<and>
      extract_text late_raising_pdf 3 = Inl (lit ''boom'')"
    using h3a h3c by simp
  have h4a: "acquired_text sample_pdf 1 = Some (lit ''Uno'') \<and>
      acquired_text sample_pdf 2 = Some (lit ''Hola'') \<and>
      acquired_text sample_pdf 3 = Some (lit ''Uno'')"
    by (simp add: sample_pdf_def acquired_text_def recognised_def eval_pages)
  have h4: "num_pages sample_pdf = Inr 3 \<and>
      (\<forall>j\<in>{1..3}. acquired_text sample_pdf j = Some (if j = 2 then lit ''Hola'' else lit ''Uno''))"
    by (simp add: sample_pdf_def acquired_text_def recognised_def eval_pages)
  have c1: "page_body sample_pdf True 3 1 [] =
      (Extract 1 # (if True then [Report (fl sample_pdf (fl sample_pdf (of_nat 1 / of_nat 3) * 50))] else []),
       Inr ([] @ lit ''Uno'' @ [10]))"
    by (rule mp[OF conjunct1[OF page_text_source] h1])
  have c2: "page_body sample_pdf True 3 2 (lit ''Uno'' @ [10]) =
      (Extract 2 # Rasterize 2 # Recognize 2 #
         (if True then [Report (fl sample_pdf (fl sample_pdf (of_nat 2 / of_nat 3) * 50))] else []),
       Inr ((lit ''Uno'' @ [10]) @ lit ''Hola'' @ [10]))"
    by (rule mp[OF conjunct1[OF conjunct2[OF page_text_source]] h2])
  have c3: "\<exists>evs. extract_text_from_pdf late_raising_pdf True =
                (evs @ [Extract 3], Inl (lit ''Error extracting text from PDF: '' @ lit ''boom'')) \<and>
              (\<forall>k. Extract k \<in> set evs \<longrightarrow> k < 3)"
    by (rule mp[OF conjunct1[OF conjunct2[OF conjunct2[OF page_text_source]]] h3])
  have c4: "snd (extract_text_from_pdf sample_pdf True) =
        (if strip (concat (map (\<lambda>j. (if j = 2 then lit ''Hola'' else lit ''Uno'') @ [10]) [1..<Suc 3])) = []
         then Inl (lit ''No text could be extracted from the PDF.'')
         else Inr (concat (map (\<lambda>j. (if j = 2 then lit ''Hola'' else lit ''Uno'') @ [10]) [1..<Suc 3])))"
    by (rule mp[OF conjunct2[OF conjunct2[OF conjunct2[OF page_text_source]]] h4])
  have r1: "page_body sample_pdf True 3 1 [] = ([Extract 1, Report (50 / 3)], Inr (lit ''Uno'' @ [10]))"
    using c1 by (simp add: sample_pdf_def)
  have r2: "page_body sample_pdf True 3 2 (lit ''Uno'' @ [10]) =
     ([Extract 2, Rasterize 2, Recognize 2, Report (100 / 3)],
      Inr (lit ''Uno'' @ [10] @ lit ''Hola'' @ [10]))"
    using c2 by (simp add: sample_pdf_def)
  have r3: "\<exists>evs. extract_text_from_pdf late_raising_pdf True =
            (evs @ [Extract 3], Inl (lit ''Error extracting text from PDF: boom''))"
    using c3 by (auto simp: lit_def)
  have up: "[1..<Suc 3] = [1, 2, 3]" by code_simp
  have r4: "snd (extract_text_from_pdf sample_pdf True) =
     Inr (lit ''Uno'' @ [10] @ lit ''Hola'' @ [10] @ lit ''Uno'' @ [10])"
    using c4 unfolding up by (simp add: strip_def isspace_def lit_def)
  show ?thesis
    using h1 h2 h3a h3b h4a r1 r2 r3 r4 by (simp add: sample_pdf_def)
qed

section \<open>A blank text is an error\<close>

lemma no_text_error_not_wrapped: "no_text_error \<noteq> extraction_error e"
  by (simp add: no_text_error_def extraction_error_def lit_def)

text \<open>
  Claim C3. A text the function returns is never blank; when the loop processes every page
  without an exception and the accumulated text is blank, the function raises ``No text
  could be extracted from the PDF.''; and this message differs from every exception raised
  inside the outer \<^verbatim>\<open>try\<close>, in particular from the one of a failed recognition.
\<close>

theorem blank_text_is_no_text_found:
  "(snd (extract_text_from_pdf env cb) = Inr t \<longrightarrow> strip t \<noteq> []) \<and>
   (num_pages env = Inr n \<and> pages_loop env cb n (page_numbers n) [] = (evs, Inr out) \<and> strip out = []
      \<longrightarrow> extract_text_from_pdf env cb = (evs, Inl no_text_error)) \<and>
   no_text_error \<noteq> extraction_error e"
proof (intro conjI impI)
  assume "snd (extract_text_from_pdf env cb) = Inr t"
  then show "strip t \<noteq> []"
    by (auto simp: extract_text_from_pdf_def split: sum.splits prod.splits if_splits)
next
  assume "num_pages env = Inr n \<and> pages_loop env cb n (page_numbers n) [] = (evs, Inr out) \<and> strip out = []"
  then show "extract_text_from_pdf env cb = (evs, Inl no_text_error)"
    by (simp add: extract_text_from_pdf_def)
next
  show "no_text_error \<noteq> extraction_error e"
    by (rule no_text_error_not_wrapped)
qed

text \<open>
  The three-page example returns a text that is not blank; the one-page example on which
  only a blank is recognised ends with the emptiness error.
\<close>

theorem blank_text_is_no_text_found_witness:
  "snd (extract_text_from_pdf sample_pdf True) =
     Inr (lit ''Uno'' @ [10] @ lit ''Hola'' @ [10] @ lit ''Uno'' @ [10]) \<and>
   strip (lit ''Uno'' @ [10] @ lit ''Hola'' @ [10] @ lit ''Uno'' @ [10]) \<noteq> [] \<and>
   num_pages blank_pdf = Inr 1 \<and>
   pages_loop blank_pdf True 1 (page_numbers 1) [] =
     ([Extract 1, Rasterize 1, Recognize 1, Report 50], Inr [32, 10]) \<and>
   strip [32, 10] = [] \<and>
   extract_text_from_pdf blank_pdf True =
     ([Extract 1, Rasterize 1, Recognize 1, Report 50], Inl no_text_error)"
proof -
  have h1: "snd (extract_text_from_pdf sample_pdf True) =
     Inr (lit ''Uno'' @ [10] @ lit ''Hola'' @ [10] @ lit ''Uno'' @ [10])"
    by (simp add: sample_pdf_def eval_acq)
  have h2: "num_pages blank_pdf = Inr 1 \<and>
     pages_loop blank_pdf True 1 (page_numbers 1) [] =
       ([Extract 1, Rasterize 1, Recognize 1, Report 50], Inr [32, 10]) \<and>
     strip [32, 10] = []"
    by (simp add: blank_pdf_def sample_pdf_def eval_acq)
  show ?thesis
    using h1 h2
      mp[OF conjunct1[OF blank_text_is_no_text_found] h1]
      mp[OF conjunct1[OF conjunct2[OF blank_text_is_no_text_found]] h2]
    by blast
qed

section \<open>Pages with embedded text never reach the recogniser\<close>

lemma pages_loop_all_direct:
  "\<forall>i\<in>set idxs. \<exists>t. extract_text env i = Inr (Some t) \<and> strip t \<noteq> [] \<Longrightarrow>
   filter is_ocr_call (fst (pages_loop env cb n idxs acc)) = [] \<and>
   (\<exists>out. snd (pages_loop env cb n idxs acc) = Inr out)"
proof (induction idxs arbitrary: acc)
  case Nil
  then show ?case by simp
next
  case (Cons i rest)
  from Cons.prems obtain t where t: "extract_text env i = Inr (Some t)" "strip t \<noteq> []"
    by auto
  have rest: "\<forall>j\<in>set rest. \<exists>t. extract_text env j = Inr (Some t) \<and> strip t \<noteq> []"
    using Cons.prems by simp
  have body: "page_body env cb n i acc = (Extract i # report env cb n i, Inr (acc @ t @ [10]))"
    using t by (rule page_body_direct)
  have rep: "filter is_ocr_call (report env cb n i) = []"
    by (simp add: report_def)
  show ?case
    using Cons.IH[OF rest, of "acc @ t @ [10]"] body rep
    by (auto split: prod.splits)
qed

text \<open>
  Claim C9. When direct extraction returns text that is not blank on every page of an
  \<open>n\<close>-page document, the run calls neither the rasterizer nor the recogniser.
\<close>

theorem direct_text_never_invokes_ocr:
  assumes "num_pages env = Inr n"
    and "\<forall>i\<in>{1..n}. \<exists>t. extract_text env i = Inr (Some t) \<and> strip t \<noteq> []"
  shows "filter is_ocr_call (fst (extract_text_from_pdf env cb)) = []"
proof -
  have "\<forall>i\<in>set (page_numbers n). \<exists>t. extract_text env i = Inr (Some t) \<and> strip t \<noteq> []"
    using assms(2) by (simp add: set_page_numbers)
  from pages_loop_all_direct[OF this, of cb n "[]"]
  show ?thesis
    using assms(1) by (auto simp: extract_text_from_pdf_def split: prod.splits sum.splits)
qed

text \<open>
  The three-page example in which every page has embedded text.
\<close>

theorem direct_text_never_invokes_ocr_witness:
  "num_pages direct_pdf = Inr 3 \<and>
   extract_text direct_pdf 1 = Inr (Some (lit ''Uno'')) \<and>
   extract_text direct_pdf 2 = Inr (Some (lit ''Uno'')) \<and>
   extract_text direct_pdf 3 = Inr (Some (lit ''Uno'')) \<and>
   strip (lit ''Uno'') \<noteq> [] \<and>
   filter is_ocr_call (fst (extract_text_from_pdf direct_pdf True)) = []"
proof -
  have h1: "num_pages direct_pdf = Inr 3"
    by (simp add: direct_pdf_def sample_pdf_def)
  have h2: "\<forall>i\<in>{1..3}. \<exists>t. extract_text direct_pdf i = Inr (Some t) \<and> strip t \<noteq> []"
    by (simp add: direct_pdf_def sample_pdf_def strip_def isspace_def lit_def)
  have h3: "extract_text direct_pdf 1 = Inr (Some (lit ''Uno'')) \<and>
      extract_text direct_pdf 2 = Inr (Some (lit ''Uno'')) \<and>
      extract_text direct_pdf 3 = Inr (Some (lit ''Uno'')) \<and>
      strip (lit ''Uno'') \<noteq> []"
    by (simp add: direct_pdf_def sample_pdf_def strip_def isspace_def lit_def)
  show ?thesis
    using h1 h3 direct_text_never_invokes_ocr[OF h1 h2, of True] by blast
qed

section \<open>A page whose rasterization is empty\<close>

text \<open>
  Claim C10. On a page whose direct extraction gives no text or blank text and whose
  rasterization returns the empty list without raising, the loop body raises nothing,
  leaves the accumulated text as it was (no line break is appended), and still reports the
  page's progress value; the loop goes on with the next page from the unchanged text.
\<close>

theorem empty_image_list_contributes_nothing:
  assumes "needs_ocr env i" and "convert_from_path env i = Inr []"
  shows "page_body env True n i acc =
           ([Extract i, Rasterize i, Report (progress_value (fl env) i n)], Inr acc) \<and>
         pages_loop env True n (i # rest) acc =
           (case pages_loop env True n rest acc of
              (evs, r) \<Rightarrow> ([Extract i, Rasterize i, Report (progress_value (fl env) i n)] @ evs, r))"
proof -
  have fb: "ocr_fallback env i acc = ([Rasterize i], Inr acc)"
    using assms(2) by (simp add: ocr_fallback_def)
  have body: "page_body env True n i acc =
           ([Extract i, Rasterize i, Report (progress_value (fl env) i n)], Inr acc)"
    using page_body_fallback[OF assms(1), of True n acc] fb by (simp add: report_def)
  then show ?thesis by simp
qed

text \<open>
  On the example whose rasterizer returns no image, page 2 adds nothing to the text of
  pages 1 and 3, and its progress value 100/3 is reported.
\<close>

theorem empty_image_list_contributes_nothing_witness:
  "needs_ocr empty_raster_pdf 2 \<and> convert_from_path empty_raster_pdf 2 = Inr [] \<and>
   page_body empty_raster_pdf True 3 2 (lit ''Uno'' @ [10]) =
     ([Extract 2, Rasterize 2, Report (100 / 3)], Inr (lit ''Uno'' @ [10])) \<and>
   extract_text_from_pdf empty_raster_pdf True =
     ([Extract 1, Report (50 / 3), Extract 2, Rasterize 2, Report (100 / 3), Extract 3, Report 50],
      Inr (lit ''Uno'' @ [10] @ lit ''Uno'' @ [10]))"
proof -
  have h1: "needs_ocr empty_raster_pdf 2"
    by (simp add: empty_raster_pdf_def sample_pdf_def eval_acq)
  have h2: "convert_from_path empty_raster_pdf 2 = Inr []"
    by (simp add: empty_raster_pdf_def sample_pdf_def)
  have pv: "progress_value (fl empty_raster_pdf) 2 3 = 100 / 3"
    by (simp add: empty_raster_pdf_def sample_pdf_def progress_value_def)
  have whole: "extract_text_from_pdf empty_raster_pdf True =
     ([Extract 1, Report (50 / 3), Extract 2, Rasterize 2, Report (100 / 3), Extract 3, Report 50],
      Inr (lit ''Uno'' @ [10] @ lit ''Uno'' @ [10]))"
    by (simp add: empty_raster_pdf_def sample_pdf_def eval_acq)
  show ?thesis
    using h1 h2 whole
      conjunct1[OF empty_image_list_contributes_nothing[OF h1 h2, of 3 "lit ''Uno'' @ [10]" "[]"]]
    by (simp add: pv)
qed

section \<open>A failure of recognition ends the acquisition\<close>

declare str_nat.simps [simp del]

lemma str_nat_digits: "\<forall>d\<in>set (str_nat k). 48 \<le> d \<and> d \<le> 57"
proof (induction k rule: str_nat.induct)
  case (1 n)
  show ?case
  proof (cases "n < 10")
    case True
    then show ?thesis by (subst str_nat.simps) simp
  next
    case False
    have "n mod 10 < 10" by simp
    then have "48 + n mod 10 \<le> 57" by linarith
    then show ?thesis using "1.IH" False by (subst str_nat.simps) auto
  qed
qed

lemma parse_nat_str_nat: "parse_nat (str_nat k) = k"
proof (induction k rule: str_nat.induct)
  case (1 n)
  show ?case
  proof (cases "n < 10")
    case True
    then show ?thesis by (subst str_nat.simps) (simp add: parse_nat_def)
  next
    case False
    have "parse_nat (str_nat n) = 10 * parse_nat (str_nat (n div 10)) + n mod 10"
      using False by (subst str_nat.simps) (simp add: parse_nat_def)
    then show ?thesis using "1.IH" False by simp
  qed
qed

text \<open>
  Claim C2. Let the pages before \<open>i\<close> raise nothing, let direct extraction on page \<open>i\<close> give
  no text or blank text, and let the rasterizer raise \<open>c\<close> on page \<open>i\<close>, or return an image
  on which the recogniser raises \<open>c\<close>. Then the function raises ``Error extracting text from
  PDF: Error during OCR on page \<open>i\<close>: \<open>c\<close>'', where \<open>i\<close> is written in decimal digits, from
  which the page number counted from 1 is read back; no text is returned, and no page after
  \<open>i\<close> is read.
\<close>

theorem ocr_failure_is_fatal:
  assumes "num_pages env = Inr n" and "1 \<le> i" and "i \<le> n"
    and "\<forall>j. 1 \<le> j \<and> j < i \<longrightarrow> page_completes env j"
    and "extract_text env i = Inr None \<or> (\<exists>t. extract_text env i = Inr (Some t) \<and> strip t = [])"
    and "convert_from_path env i = Inl c \<or>
         (\<exists>img others. convert_from_path env i = Inr (img # others) \<and>
            image_to_string env img = Inl c)"
  shows "snd (extract_text_from_pdf env cb) =
           Inl (lit ''Error extracting text from PDF: Error during OCR on page '' @
                str_nat i @ lit '': '' @ c) \<and>
         parse_nat (str_nat i) = i \<and> (\<forall>d\<in>set (str_nat i). 48 \<le> d \<and> d \<le> 57) \<and>
         (\<forall>k. Extract k \<in> set (fst (extract_text_from_pdf env cb)) \<longrightarrow> k \<le> i)"
proof -
  have need: "needs_ocr env i"
    using assms(5) by (auto simp: needs_ocr_def)
  obtain evs_o where fb: "\<And>acc. ocr_fallback env i acc = (evs_o, Inl (ocr_error i c))"
    "\<forall>k. Extract k \<notin> set evs_o"
    using assms(6) by (auto simp: ocr_fallback_def)
  have b: "\<And>acc. page_body env cb n i acc = (Extract i # evs_o, Inl (ocr_error i c))"
    using page_body_fallback[OF need, of cb n] fb(1) by simp
  from fails_at_page[OF assms(1-4) b]
  obtain evs where r: "extract_text_from_pdf env cb =
      (evs @ Extract i # evs_o, Inl (extraction_error (ocr_error i c)))"
    and before: "\<forall>k. Extract k \<in> set evs \<longrightarrow> k < i" by blast
  have msg: "extraction_error (ocr_error i c) =
      lit ''Error extracting text from PDF: Error during OCR on page '' @ str_nat i @ lit '': '' @ c"
    by (simp add: extraction_error_def ocr_error_def lit_def)
  have "\<forall>k. Extract k \<in> set (fst (extract_text_from_pdf env cb)) \<longrightarrow> k \<le> i"
    using r before fb(2) by (auto simp: less_imp_le)
  then show ?thesis
    using r msg parse_nat_str_nat[of i] str_nat_digits[of i] by simp
qed

text \<open>
  Three documents: the rasterizer raises on page 2, the recogniser raises on page 2, and the
  recogniser raises on page 12 of twelve (a page number of two digits).
\<close>

theorem ocr_failure_is_fatal_witness:
  "num_pages raster_failing_pdf = Inr 3 \<and> page_completes raster_failing_pdf 1 \<and>
   extract_text raster_failing_pdf 2 = Inr (Some (lit ''  '')) \<and> strip (lit ''  '') = [] \<and>
   convert_from_path raster_failing_pdf 2 = Inl (lit ''Unable to get page count'') \<and>
   snd (extract_text_from_pdf raster_failing_pdf True) =
     Inl (lit ''Error extracting text from PDF: Error during OCR on page 2: Unable to get page count'') \<and>
   num_pages ocr_failing_pdf = Inr 3 \<and> page_completes ocr_failing_pdf 1 \<and>
   extract_text ocr_failing_pdf 2 = Inr (Some (lit ''  '')) \<and>
   convert_from_path ocr_failing_pdf 2 = Inr [2] \<and>
   image_to_string ocr_failing_pdf 2 = Inl (lit ''tesseract is not installed'') \<and>
   snd (extract_text_from_pdf ocr_failing_pdf True) =
     Inl (lit ''Error extracting text from PDF: Error during OCR on page 2: tesseract is not installed'') \<and>
   num_pages long_pdf = Inr 12 \<and> page_completes long_pdf 1 \<and> page_completes long_pdf 11 \<and>
   extract_text long_pdf 12 = Inr None \<and> convert_from_path long_pdf 12 = Inr [12] \<and>
   image_to_string long_pdf 12 = Inl (lit ''tesseract is not installed'') \<and>
   snd (extract_text_from_pdf long_pdf False) =
     Inl (lit ''Error extracting text from PDF: Error during OCR on page 12: tesseract is not installed'') \<and>
   parse_nat (lit ''12'') = 12"
proof -
  have a1: "num_pages raster_failing_pdf = Inr 3"
    by (simp add: raster_failing_pdf_def sample_pdf_def)
  have a2: "\<forall>j. 1 \<le> j \<and> j < 2 \<longrightarrow> page_completes raster_failing_pdf j"
    by (simp add: raster_failing_pdf_def sample_pdf_def eval_pages)
  have a3: "extract_text raster_failing_pdf 2 = Inr (Some (lit ''  ''))" "strip (lit ''  '') = []"
    by (simp_all add: raster_failing_pdf_def sample_pdf_def eval_pages)
  have a4: "convert_from_path raster_failing_pdf 2 = Inl (lit ''Unable to get page count'')"
    by (simp add: raster_failing_pdf_def sample_pdf_def)
  have a5: "page_completes raster_failing_pdf 1"
    by (simp add: raster_failing_pdf_def sample_pdf_def eval_pages)
  have b1: "num_pages ocr_failing_pdf = Inr 3"
    by (simp add: ocr_failing_pdf_def sample_pdf_def)
  have b2: "\<forall>j. 1 \<le> j \<and> j < 2 \<longrightarrow> page_completes ocr_failing_pdf j"
    by (simp add: ocr_failing_pdf_def sample_pdf_def eval_pages)
  have b3: "extract_text ocr_failing_pdf 2 = Inr (Some (lit ''  ''))"
    by (simp add: ocr_failing_pdf_def sample_pdf_def)
  have b4: "convert_from_path ocr_failing_pdf 2 = Inr [2]"
    "image_to_string ocr_failing_pdf 2 = Inl (lit ''tesseract is not installed'')"
    by (simp_all add: ocr_failing_pdf_def sample_pdf_def)
  have b5: "page_completes ocr_failing_pdf 1"
    by (simp add: ocr_failing_pdf_def sample_pdf_def eval_pages)
  have c1: "num_pages long_pdf = Inr 12" by (simp add: long_pdf_def)
  have c2: "\<forall>j. 1 \<le> j \<and> j < 12 \<longrightarrow> page_completes long_pdf j"
    by (simp add: long_pdf_def eval_pages)
  have c3: "extract_text long_pdf 12 = Inr None" by (simp add: long_pdf_def)
  have c4: "convert_from_path long_pdf 12 = Inr [12]"
    "image_to_string long_pdf 12 = Inl (lit ''tesseract is not installed'')"
    by (simp_all add: long_pdf_def)
  have c5: "page_completes long_pdf 1" "page_completes long_pdf 11"
    using c2 by simp_all
  have s2: "str_nat 2 = lit ''2''" "str_nat 12 = lit ''12''"
    by (simp_all add: str_nat.simps lit_def)
  have m1: "lit ''Error extracting text from PDF: Error during OCR on page '' @ lit ''2'' @ lit '': '' @
        lit ''Unable to get page count'' =
      lit ''Error extracting text from PDF: Error during OCR on page 2: Unable to get page count''"
    "lit ''Error extracting text from PDF: Error during OCR on page '' @ lit ''2'' @ lit '': '' @
        lit ''tesseract is not installed'' =
      lit ''Error extracting text from PDF: Error during OCR on page 2: tesseract is not installed''"
    "lit ''Error extracting text from PDF: Error during OCR on page '' @ lit ''12'' @ lit '': '' @
        lit ''tesseract is not installed'' =
      lit ''Error extracting text from PDF: Error during OCR on page 12: tesseract is not installed''"
    by (simp_all add: lit_def)
  have r1: "snd (extract_text_from_pdf raster_failing_pdf True) =
     Inl (lit ''Error extracting text from PDF: Error during OCR on page 2: Unable to get page count'')"
    using conjunct1[OF ocr_failure_is_fatal[OF a1 _ _ a2, of "lit ''Unable to get page count''" True]]
      a3 a4 by (simp add: s2 m1)
  have r2: "snd (extract_text_from_pdf ocr_failing_pdf True) =
     Inl (lit ''Error extracting text from PDF: Error during OCR on page 2: tesseract is not installed'')"
    using conjunct1[OF ocr_failure_is_fatal[OF b1 _ _ b2, of "lit ''tesseract is not installed''" True]]
      a3(2) b3 b4 by (simp add: s2 m1)
  have r3: "snd (extract_text_from_pdf long_pdf False) =
     Inl (lit ''Error extracting text from PDF: Error during OCR on page 12: tesseract is not installed'') \<and>
     parse_nat (str_nat 12) = 12"
    using ocr_failure_is_fatal[OF c1 _ _ c2, of "lit ''tesseract is not installed''" False]
      c3 c4 by (simp add: s2 m1)
  show ?thesis
    using a1 a3 a4 a5 b1 b3 b4 b5 c1 c3 c4 c5 r1 r2 r3 by (simp add: s2)
qed

section \<open>The progress values of the acquisition\<close>

lemma reported_append: "reported (xs @ ys) = reported xs @ reported ys"
  by (induction xs rule: reported.induct) auto

lemma reported_ocr_fallback: "reported (fst (ocr_fallback env i text)) = []"
  by (auto simp: ocr_fallback_def split: sum.splits list.splits)

lemma reported_page_body:
  "reported (fst (page_body env True n i text)) =
     (case snd (page_body env True n i text) of Inl e \<Rightarrow> [] | Inr t \<Rightarrow> [progress_value (fl env) i n])"
  using reported_ocr_fallback[of env i "text"]
  by (auto simp: page_body_def reported_append report_def split: sum.splits option.splits prod.splits)

lemma pages_loop_reported:
  "\<exists>k\<le>length idxs.
     reported (fst (pages_loop env True n idxs acc)) =
       map (\<lambda>i. progress_value (fl env) i n) (take k idxs) \<and>
     ((\<exists>out. snd (pages_loop env True n idxs acc) = Inr out) \<longrightarrow> k = length idxs)"
proof (induction idxs arbitrary: acc)
  case Nil
  then show ?case by simp
next
  case (Cons i rest)
  obtain evs r where body: "page_body env True n i acc = (evs, r)"
    by (cases "page_body env True n i acc")
  have rep: "reported evs = (case r of Inl e \<Rightarrow> [] | Inr t \<Rightarrow> [progress_value (fl env) i n])"
    using reported_page_body[of env n i acc] body by simp
  show ?case
  proof (cases r)
    case (Inl e)
    with body rep have "reported (fst (pages_loop env True n (i # rest) acc)) = []"
      and "snd (pages_loop env True n (i # rest) acc) = Inl e" by simp_all
    then show ?thesis by (intro exI[of _ 0]) simp
  next
    case (Inr acc')
    obtain evs' r' where rest: "pages_loop env True n rest acc' = (evs', r')"
      by (cases "pages_loop env True n rest acc'")
    from Cons.IH[of acc'] rest obtain k where k: "k \<le> length rest"
      "reported evs' = map (\<lambda>i. progress_value (fl env) i n) (take k rest)"
      "(\<exists>out. r' = Inr out) \<longrightarrow> k = length rest" by auto
    have "reported (fst (pages_loop env True n (i # rest) acc)) =
            map (\<lambda>i. progress_value (fl env) i n) (take (Suc k) (i # rest))"
      using body Inr rest rep k(2) by (simp add: reported_append)
    moreover have "snd (pages_loop env True n (i # rest) acc) = r'"
      using body Inr rest by simp
    ultimately show ?thesis
      using k(1) k(3) by (intro exI[of _ "Suc k"]) simp
  qed
qed

lemma reported_extract:
  "num_pages env = Inr n \<Longrightarrow>
   reported (fst (extract_text_from_pdf env cb)) = reported (fst (pages_loop env cb n (page_numbers n) []))"
  by (auto simp: extract_text_from_pdf_def split: prod.splits sum.splits)

lemma rounded_fraction:
  assumes "rounds_like_binary64 rnd lo" and "i \<le> n"
  shows "0 \<le> rnd (of_nat i / of_nat n) \<and> rnd (of_nat i / of_nat n) \<le> 1"
proof -
  have m: "\<And>x y. 0 \<le> x \<Longrightarrow> x \<le> y \<Longrightarrow> rnd x \<le> rnd y"
    using assms(1) by (auto simp: rounds_like_binary64_def mono_on_def)
  have r: "rnd 0 = 0" "rnd 1 = 1"
    using assms(1) by (auto simp: rounds_like_binary64_def)
  have q1: "0 \<le> (of_nat i :: rat) / of_nat n" by simp
  have q2: "(of_nat i :: rat) / of_nat n \<le> 1"
  proof (cases "n = 0")
    case True
    then show ?thesis by simp
  next
    case False
    then have "(0::rat) < of_nat n" by simp
    moreover have "(of_nat i :: rat) \<le> of_nat n" using assms(2) by simp
    ultimately show ?thesis by (simp add: divide_le_eq_1)
  qed
  have "rnd 0 \<le> rnd (of_nat i / of_nat n)" using m[OF _ q1] by simp
  moreover have "rnd (of_nat i / of_nat n) \<le> rnd 1" using m[OF q1 q2] .
  ultimately show ?thesis using r by simp
qed

lemma rounded_progress_bounds:
  assumes "rounds_like_binary64 rnd lo" and "i \<le> n"
  shows "0 \<le> rnd (rnd (of_nat i / of_nat n) * 50) \<and> rnd (rnd (of_nat i / of_nat n) * 50) \<le> 50"
proof -
  have m: "\<And>x y. 0 \<le> x \<Longrightarrow> x \<le> y \<Longrightarrow> rnd x \<le> rnd y"
    using assms(1) by (auto simp: rounds_like_binary64_def mono_on_def)
  have r: "rnd 0 = 0" "rnd 50 = 50"
    using assms(1) by (auto simp: rounds_like_binary64_def)
  note f = rounded_fraction[OF assms]
  have y: "0 \<le> rnd (of_nat i / of_nat n) * 50" "rnd (of_nat i / of_nat n) * 50 \<le> 50"
    using f by simp_all
  have "rnd 0 \<le> rnd (rnd (of_nat i / of_nat n) * 50)" using m[OF _ y(1)] by simp
  moreover have "rnd (rnd (of_nat i / of_nat n) * 50) \<le> rnd 50" using m[OF y(1) y(2)] .
  ultimately show ?thesis using r by simp
qed

lemma rounded_progress_mono:
  assumes "rounds_like_binary64 rnd lo" and "i \<le> j" and "j \<le> n"
  shows "rnd (rnd (of_nat i / of_nat n) * 50) \<le> rnd (rnd (of_nat j / of_nat n) * 50)"
proof -
  have m: "\<And>x y. 0 \<le> x \<Longrightarrow> x \<le> y \<Longrightarrow> rnd x \<le> rnd y"
    using assms(1) by (auto simp: rounds_like_binary64_def mono_on_def)
  have q: "(0::rat) \<le> of_nat i / of_nat n" "(of_nat i :: rat) / of_nat n \<le> of_nat j / of_nat n"
    using assms(2) by (simp_all add: divide_right_mono)
  have a: "rnd (of_nat i / of_nat n) \<le> rnd (of_nat j / of_nat n)"
    using m[OF q] .
  have "i \<le> n" using assms(2,3) by simp
  then have "0 \<le> rnd (of_nat i / of_nat n) * 50"
    using rounded_fraction[OF assms(1), of i n] by simp
  moreover have "rnd (of_nat i / of_nat n) * 50 \<le> rnd (of_nat j / of_nat n) * 50"
    using a by simp
  ultimately show ?thesis by (rule m)
qed

lemma rounded_progress_last:
  assumes "rounds_like_binary64 rnd lo" and "0 < n"
  shows "rnd (rnd (of_nat n / of_nat n) * 50) = 50"
  using assms by (simp add: rounds_like_binary64_def)

lemma rounded_progress_error:
  assumes "rounds_like_binary64 rnd (1 / of_nat n)" and "1 \<le> i" and "i \<le> n"
  shows "\<bar>rnd (rnd (of_nat i / of_nat n) * 50) - of_nat i / of_nat n * 50\<bar>
           \<le> of_nat i / of_nat n * 50 * (2 / 2 ^ 53 + 1 / 2 ^ 106)"
proof -
  define a :: rat where "a = of_nat i / of_nat n"
  define U :: rat where "U = 1 / 2 ^ 53"
  define fa where "fa = rnd a"
  define y where "y = fa * 50"
  have e: "\<And>x. 1 / of_nat n \<le> x \<Longrightarrow> x \<le> 50 \<Longrightarrow> \<bar>rnd x - x\<bar> \<le> x * U"
    using assms(1) by (simp add: rounds_like_binary64_def U_def)
  have npos: "(0::rat) < of_nat n" using assms(2,3) by simp
  have a_lo: "1 / of_nat n \<le> a"
    unfolding a_def using assms(2) npos by (simp add: divide_right_mono)
  have a_pos: "0 < a"
    unfolding a_def using assms(2) npos by simp
  have fa_le: "fa \<le> 1" and fa_ge0: "0 \<le> fa"
    using rounded_fraction[OF assms(1,3)] by (simp_all add: fa_def a_def)
  have a_hi: "a \<le> 1"
    unfolding a_def using assms(3) npos by (simp add: divide_le_eq_1)
  have U: "0 \<le> U" "U \<le> 1 / 2" by (simp_all add: U_def)
  have aU: "0 \<le> a * U" "a * U \<le> a / 2"
    using a_pos U by (simp_all add: mult_left_mono)
  have e1: "\<bar>fa - a\<bar> \<le> a * U"
    unfolding fa_def using e[OF a_lo] a_hi by simp
  have fa_hi: "fa \<le> a + a * U" and fa_lo: "a - a * U \<le> fa"
    using e1 by linarith+
  have y_le: "y \<le> 50" unfolding y_def using fa_le by simp
  have y_ge: "1 / of_nat n \<le> y"
    unfolding y_def using fa_lo aU a_lo by linarith
  have y_pos: "0 \<le> y" unfolding y_def using fa_ge0 by simp
  have e2: "\<bar>rnd y - y\<bar> \<le> y * U"
    using e[OF y_ge y_le] .
  have y_hi: "y \<le> 50 * a + 50 * a * U"
    unfolding y_def using fa_hi by linarith
  have "y * U \<le> (50 * a + 50 * a * U) * U"
    using y_hi U(1) by (rule mult_right_mono)
  moreover have "\<bar>y - 50 * a\<bar> \<le> 50 * (a * U)"
    unfolding y_def using e1 by linarith
  ultimately have "\<bar>rnd y - 50 * a\<bar> \<le> (50 * a + 50 * a * U) * U + 50 * (a * U)"
    using e2 by linarith
  also have "\<dots> = a * 50 * (2 * U + U * U)"
    by (simp add: algebra_simps)
  also have "2 * U + U * U = 2 / 2 ^ 53 + 1 / 2 ^ 106"
    by (simp add: U_def)
  finally show ?thesis
    by (simp add: y_def fa_def a_def mult.commute)
qed

text \<open>
  Claim C4 as stated says that the value reported after page \<open>i\<close> equals \<open>i / N * 50\<close>. Python
  computes \<^verbatim>\<open>(i / num_pages) * 50\<close> in floats, rounding the quotient and then the product. For
  three pages the callback receives 16.666666666666664 and 33.33333333333333 (the fractions
  below) and 50: the first is not 50/3, not the float nearest to 50/3, and not its floor.
\<close>

theorem float_progress_counterexample:
  "reported (fst (extract_text_from_pdf float_pdf True)) =
     [4691249611844266 / 2 ^ 48, 4691249611844266 / 2 ^ 47, 50] \<and>
   (4691249611844266 / 2 ^ 48 :: rat) \<noteq> 1 / 3 * 50 \<and>
   fl64 (1 / 3 * 50) = 4691249611844267 / 2 ^ 48 \<and>
   \<lfloor>1 / 3 * 50 :: rat\<rfloor> = 16 \<and>
   (4691249611844266 / 2 ^ 48 :: rat) \<noteq> 16"
  by code_simp

text \<open>
  Claim C4, amended. Let \<open>n\<close> be the number of pages, and let the float rounding be monotone,
  exact on 0, 1 and 50 and of relative error at most \<open>2 ^ (-53)\<close> between \<open>1 / n\<close> and 50, as
  the rounding of CPython is. The values the callback receives are
  \<open>fl (fl (i / n) * 50)\<close>, the float product of the float quotient, for the pages
  \<open>i = 1, ..., m\<close> completed, one per page and in page order, with \<open>m = n\<close> unless a page
  raised. They are non-decreasing and lie between 0 and 50; each differs from \<open>i / n * 50\<close>
  by at most the relative error \<open>2 ^ (-52) + 2 ^ (-106)\<close> of two roundings; and the value
  after the last page is exactly 50.
\<close>

theorem acquisition_progress_values:
  assumes "num_pages env = Inr n"
    and "rounds_like_binary64 (fl env) (1 / of_nat n)"
  shows "\<exists>m\<le>n.
           reported (fst (extract_text_from_pdf env True)) =
             map (\<lambda>i. fl env (fl env (of_nat i / of_nat n) * 50)) [1..<Suc m] \<and>
           ((\<forall>e. snd (extract_text_from_pdf env True) \<noteq>
                  Inl (lit ''Error extracting text from PDF: '' @ e)) \<longrightarrow> m = n) \<and>
           sorted (reported (fst (extract_text_from_pdf env True))) \<and>
           (\<forall>v\<in>set (reported (fst (extract_text_from_pdf env True))). 0 \<le> v \<and> v \<le> 50) \<and>
           (\<forall>i\<in>{1..m}.
              \<bar>fl env (fl env (of_nat i / of_nat n) * 50) - of_nat i / of_nat n * 50\<bar>
                \<le> of_nat i / of_nat n * 50 * (2 / 2 ^ 53 + 1 / 2 ^ 106)) \<and>
           (0 < n \<and> m = n \<longrightarrow> last (reported (fst (extract_text_from_pdf env True))) = 50)"
proof -
  let ?pv = "\<lambda>i. fl env (fl env (of_nat i / of_nat n) * 50)"
  let ?loop = "pages_loop env True n (page_numbers n) []"
  let ?rep = "reported (fst (extract_text_from_pdf env True))"
  note len = length_page_numbers[of n]
  from pages_loop_reported[of "page_numbers n" env n "[]"]
  obtain k where k0: "k \<le> length (page_numbers n)"
    "reported (fst ?loop) = map (\<lambda>i. progress_value (fl env) i n) (take k (page_numbers n))"
    "(\<exists>out. snd ?loop = Inr out) \<longrightarrow> k = length (page_numbers n)" by blast
  have k: "k \<le> n" "(\<exists>out. snd ?loop = Inr out) \<longrightarrow> k = n"
    using k0 unfolding len by blast+
  have tk: "take k (page_numbers n) = [1..<Suc k]"
    using take_page_numbers[OF k(1)] by (simp add: page_numbers_def del: upt_Suc)
  have rep: "?rep = map ?pv [1..<Suc k]"
    using reported_extract[OF assms(1), of True] k0(2) tk
    by (simp add: progress_value_def del: upt_Suc)
  have full: "(\<forall>e. snd (extract_text_from_pdf env True) \<noteq>
                  Inl (lit ''Error extracting text from PDF: '' @ e)) \<longrightarrow> k = n"
  proof
    assume a: "\<forall>e. snd (extract_text_from_pdf env True) \<noteq>
                  Inl (lit ''Error extracting text from PDF: '' @ e)"
    have "\<exists>out. snd ?loop = Inr out"
    proof (cases "snd ?loop")
      case (Inl e)
      then have "snd (extract_text_from_pdf env True) = Inl (extraction_error e)"
        using assms(1) by (auto simp: extract_text_from_pdf_def split: prod.splits)
      with a show ?thesis by (simp add: extraction_error_def)
    next
      case (Inr out)
      then show ?thesis by blast
    qed
    with k(2) show "k = n" by blast
  qed
  have srt: "sorted (map ?pv [1..<Suc k])"
  proof -
    have "\<And>x y. x \<in> set [1..<Suc k] \<Longrightarrow> y \<in> set [1..<Suc k] \<Longrightarrow> x \<le> y \<Longrightarrow> ?pv x \<le> ?pv y"
      using rounded_progress_mono[OF assms(2)] k(1) by auto
    then have "sorted_wrt (\<lambda>x y. ?pv x \<le> ?pv y) [1..<Suc k]"
      using sorted_wrt_mono_rel[of "[1..<Suc k]" "(\<le>)" "\<lambda>x y. ?pv x \<le> ?pv y"]
      by (simp del: upt_Suc)
    then show ?thesis by (simp add: sorted_map del: upt_Suc)
  qed
  have bnd: "\<forall>v\<in>set (map ?pv [1..<Suc k]). 0 \<le> v \<and> v \<le> 50"
    using rounded_progress_bounds[OF assms(2)] k(1) by auto
  have err: "\<forall>i\<in>{1..k}. \<bar>?pv i - of_nat i / of_nat n * 50\<bar>
                \<le> of_nat i / of_nat n * 50 * (2 / 2 ^ 53 + 1 / 2 ^ 106)"
    using rounded_progress_error[OF assms(2)] k(1) by auto
  have lst: "0 < n \<and> k = n \<longrightarrow> last (map ?pv [1..<Suc k]) = 50"
  proof
    assume a: "0 < n \<and> k = n"
    then have "[1..<Suc k] \<noteq> []" by simp
    then have "last (map ?pv [1..<Suc k]) = ?pv (last [1..<Suc k])"
      by (rule last_map)
    also have "last [1..<Suc k] = n" using a by simp
    finally show "last (map ?pv [1..<Suc k]) = 50"
      using rounded_progress_last[OF assms(2), of n] a by simp
  qed
  show ?thesis
    using k(1) full srt bnd err lst unfolding rep by (intro exI[of _ k]) blast
qed

text \<open>
  The three-page example with the floats of CPython, whose rounding meets the hypotheses.
\<close>

theorem acquisition_progress_values_witness:
  "num_pages float_pdf = Inr 3 \<and> fl float_pdf = fl64 \<and> rounds_like_binary64 fl64 (1 / of_nat 3) \<and>
   (\<forall>e. snd (extract_text_from_pdf float_pdf True) \<noteq>
          Inl (lit ''Error extracting text from PDF: '' @ e)) \<and>
   reported (fst (extract_text_from_pdf float_pdf True)) =
     map (\<lambda>i. fl64 (fl64 (of_nat i / of_nat 3) * 50)) [1..<Suc 3] \<and>
   reported (fst (extract_text_from_pdf float_pdf True)) =
     [4691249611844266 / 2 ^ 48, 4691249611844266 / 2 ^ 47, 50] \<and>
   sorted (reported (fst (extract_text_from_pdf float_pdf True))) \<and>
   last (reported (fst (extract_text_from_pdf float_pdf True))) = 50"
proof -
  have h1: "num_pages float_pdf = Inr 3" by (simp add: float_pdf_def sample_pdf_def)
  have h2: "fl float_pdf = fl64" by (simp add: float_pdf_def)
  have h3: "rounds_like_binary64 fl64 (1 / of_nat 3)"
    by (rule fl64_rounds) simp
  have h3': "rounds_like_binary64 (fl float_pdf) (1 / of_nat 3)"
    using h3 h2 by simp
  have h4: "\<forall>e. snd (extract_text_from_pdf float_pdf True) \<noteq>
          Inl (lit ''Error extracting text from PDF: '' @ e)"
    by (simp add: float_pdf_def sample_pdf_def eval_acq)
  have ev: "reported (fst (extract_text_from_pdf float_pdf True)) =
     [4691249611844266 / 2 ^ 48, 4691249611844266 / 2 ^ 47, 50]"
    by code_simp
  from acquisition_progress_values[OF h1 h3']
  obtain m where m: "m \<le> 3"
    "reported (fst (extract_text_from_pdf float_pdf True)) =
       map (\<lambda>i. fl float_pdf (fl float_pdf (of_nat i / of_nat 3) * 50)) [1..<Suc m]"
    "(\<forall>e. snd (extract_text_from_pdf float_pdf True) \<noteq>
          Inl (lit ''Error extracting text from PDF: '' @ e)) \<longrightarrow> m = 3"
    "sorted (reported (fst (extract_text_from_pdf float_pdf True)))"
    "0 < (3::nat) \<and> m = 3 \<longrightarrow> last (reported (fst (extract_text_from_pdf float_pdf True))) = 50"
    by blast
  have m3: "m = 3" using m(3) h4 by blast
  have r: "reported (fst (extract_text_from_pdf float_pdf True)) =
     map (\<lambda>i. fl64 (fl64 (of_nat i / of_nat 3) * 50)) [1..<Suc 3]"
    using m(2) unfolding m3 h2 .
  have l: "last (reported (fst (extract_text_from_pdf float_pdf True))) = 50"
    using m(5) m3 by simp
  show ?thesis
    using h1 h2 h3 h4 r ev m(4) l by blast
qed

section \<open>Translation: languages that are not installed\<close>

lemma find_languages_None:
  "find_languages langs f t (a, b) = (a', b') \<Longrightarrow>
   (a' = None \<longleftrightarrow> a = None \<and> f \<notin> code ` set langs) \<and>
   (b' = None \<longleftrightarrow> b = None \<and> t \<notin> code ` set langs)"
  by (induction langs arbitrary: a b) (auto split: if_splits)

lemma find_languages_Some:
  "find_languages langs f t (a, b) = (a', b') \<Longrightarrow>
   (a' = Some x \<longrightarrow> a = Some x \<or> (x \<in> set langs \<and> code x = f)) \<and>
   (b' = Some y \<longrightarrow> b = Some y \<or> (y \<in> set langs \<and> code y = t))"
  by (induction langs arbitrary: a b) (auto split: if_splits)

lemmas eval_tr = translate_text_def translation_error_def not_installed_message_def
  none_translate_message_def english_def spanish_def lit_def

text \<open>
  Claim C7 as stated says that the error names the missing code(s). With only English and
  Spanish installed, translating from ``ko'' raises the fixed text of line 129 behind the
  prefix of line 133; ``ko'' does not occur in it, and the missing code ``zh'' gives the
  very same exception.
\<close>

theorem error_names_no_code_counterexample:
  "snd (translate_text argos (lit ''Hola'') (lit ''ko'') (lit ''en'')) =
     Inl (lit ''Error during translation: Translation packages for the selected language pair are not installed.'') \<and>
   \<not> occurs_in (lit ''ko'')
     (lit ''Error during translation: Translation packages for the selected language pair are not installed.'') \<and>
   snd (translate_text argos (lit ''Hola'') (lit ''zh'') (lit ''en'')) =
     snd (translate_text argos (lit ''Hola'') (lit ''ko'') (lit ''en''))"
  by (simp add: argos_def eval_tr)

text \<open>
  Claim C7, amended. When the installed languages are read and at least one of the two
  codes is the code of none of them, the function raises ``Error during translation:
  Translation packages for the selected language pair are not installed.'', a fixed text
  that names no code, and it calls neither \<^verbatim>\<open>get_translation\<close> nor \<^verbatim>\<open>translate\<close>:
  reading the installed languages is its only call.
\<close>

theorem missing_language_is_not_installed_error:
  assumes "get_installed_languages env = Inr langs"
    and "from_lang_code \<notin> code ` set langs \<or> to_lang_code \<notin> code ` set langs"
  shows "translate_text env s from_lang_code to_lang_code =
           ([GetInstalledLanguages], Inl (translation_error not_installed_message)) \<and>
         filter is_runtime_call (fst (translate_text env s from_lang_code to_lang_code)) = []"
proof -
  obtain a b where ab: "find_languages langs from_lang_code to_lang_code (None, None) = (a, b)"
    by (cases "find_languages langs from_lang_code to_lang_code (None, None)")
  have "a = None \<or> b = None"
    using find_languages_None[OF ab] assms(2) by blast
  then have "translate_text env s from_lang_code to_lang_code =
           ([GetInstalledLanguages], Inl (translation_error not_installed_message))"
    using assms(1) ab by (auto simp: translate_text_def split: option.splits)
  then show ?thesis by simp
qed

text \<open>
  Translating from ``ko'' with only English and Spanish installed.
\<close>

theorem missing_language_is_not_installed_error_witness:
  "get_installed_languages argos = Inr [english, spanish] \<and>
   lit ''ko'' \<notin> code ` set [english, spanish] \<and>
   translate_text argos (lit ''Hola'') (lit ''ko'') (lit ''en'') =
     ([GetInstalledLanguages], Inl (translation_error not_installed_message)) \<and>
   filter is_runtime_call (fst (translate_text argos (lit ''Hola'') (lit ''ko'') (lit ''en''))) = []"
proof -
  have h1: "get_installed_languages argos = Inr [english, spanish]"
    by (simp add: argos_def)
  have h2: "lit ''ko'' \<notin> code ` set [english, spanish]"
    by (simp add: english_def spanish_def lit_def)
  then have h3: "lit ''ko'' \<notin> code ` set [english, spanish] \<or> lit ''en'' \<notin> code ` set [english, spanish]"
    by blast
  show ?thesis
    using h1 h2 missing_language_is_not_installed_error[OF h1 h3, of "lit ''Hola''"] by blast
qed

section \<open>Translation: installed languages without a translation between them\<close>

text \<open>
  Claim C8 at an input on which the code fails it. English and Spanish are installed with
  the package from Spanish to English only, and the text is to be translated from English
  to Spanish. The test of line 128 passes, \<^verbatim>\<open>get_translation\<close> returns \<^verbatim>\<open>None\<close>, and line
  131 calls \<^verbatim>\<open>translate\<close> on it with no test: what is raised is the \<^verbatim>\<open>AttributeError\<close> of
  Python behind the prefix of line 133, the same exception as that of a runtime which has
  the translation and fails in \<^verbatim>\<open>translate\<close> with this text. One lookup is made and
  \<^verbatim>\<open>translate\<close> is not called.
\<close>

theorem no_direct_path_failing_input:
  "get_installed_languages argos = Inr [english, spanish] \<and>
   get_translation argos english spanish = Inr None \<and>
   translate_text argos (lit ''Hola'') (lit ''en'') (lit ''es'') =
     ([GetInstalledLanguages, GetTranslation english spanish],
      Inl (lit ''Error during translation: '' @ [39] @ lit ''NoneType'' @ [39] @
           lit '' object has no attribute '' @ [39] @ lit ''translate'' @ [39])) \<and>
   get_translation argos_failing english spanish = Inr (Some 2) \<and>
   translate argos_failing 2 (lit ''Hola'') =
     Inl ([39] @ lit ''NoneType'' @ [39] @ lit '' object has no attribute '' @
          [39] @ lit ''translate'' @ [39]) \<and>
   snd (translate_text argos_failing (lit ''Hola'') (lit ''en'') (lit ''es'')) =
     snd (translate_text argos (lit ''Hola'') (lit ''en'') (lit ''es''))"
  by (simp add: argos_failing_def argos_def eval_tr)

section \<open>Rendering: the paragraphs of the story\<close>

declare split_from.simps [simp del]














section \<open>The pipeline: progress and the error dialog\<close>

lemma progress_of_after_render:
  "after_render pages out app = (app', SetProgress 100 # rest) \<Longrightarrow> progress_of rest = []"
  by (auto simp: after_render_def Let_def)

text \<open>
  The calls a run schedules, by the stage that raises: after the progress values of the
  acquisition, progress 50, 75 and 100 follow the stages that succeed, and an exception of
  any stage is followed by the call of the error lambda and progress 0.
\<close>

lemma progress_checkpoints:
  "(extract_text_from_pdf (acquisition env) True = (evs, Inl e) \<longrightarrow>
      process_translation env source_lang target_lang out app =
        (app, map SetProgress (reported evs) @
              [ShowErrorOfE, SetProgress 0, TranslateButtonNormal], Some e)) \<and>
   (extract_text_from_pdf (acquisition env) True = (evs, Inr extracted) \<and>
    snd (translate_text (translation env) extracted source_lang target_lang) = Inl e \<longrightarrow>
      process_translation env source_lang target_lang out app =
        (app, map SetProgress (reported evs) @
              [SetProgress 50, ShowErrorOfE, SetProgress 0, TranslateButtonNormal], Some e)) \<and>
   (extract_text_from_pdf (acquisition env) True = (evs, Inr extracted) \<and>
    snd (translate_text (translation env) extracted source_lang target_lang) = Inr translated \<and>
    create_translated_pdf (doc_build env) translated = Inl e \<longrightarrow>
      process_translation env source_lang target_lang out app =
        (app, map SetProgress (reported evs) @
              [SetProgress 50, SetProgress 75, ShowErrorOfE, SetProgress 0,
               TranslateButtonNormal], Some e)) \<and>
   (extract_text_from_pdf (acquisition env) True = (evs, Inr extracted) \<and>
    snd (translate_text (translation env) extracted source_lang target_lang) = Inr translated \<and>
    create_translated_pdf (doc_build env) translated = Inr story \<longrightarrow>
      (\<exists>rest. fst (snd (process_translation env source_lang target_lang out app)) =
         map SetProgress (reported evs) @
         [SetProgress 50, SetProgress 75, SetProgress 100] @ rest \<and>
         progress_of rest = [] \<and>
         snd (snd (process_translation env source_lang target_lang out app)) = None))"
proof (intro conjI impI)
  assume "extract_text_from_pdf (acquisition env) True = (evs, Inl e)"
  then show "process_translation env source_lang target_lang out app =
        (app, map SetProgress (reported evs) @
              [ShowErrorOfE, SetProgress 0, TranslateButtonNormal], Some e)"
    by (simp add: process_translation_def on_exception_def)
next
  assume "extract_text_from_pdf (acquisition env) True = (evs, Inr extracted) \<and>
    snd (translate_text (translation env) extracted source_lang target_lang) = Inl e"
  then show "process_translation env source_lang target_lang out app =
        (app, map SetProgress (reported evs) @
              [SetProgress 50, ShowErrorOfE, SetProgress 0, TranslateButtonNormal], Some e)"
    by (auto simp: process_translation_def on_exception_def split: prod.splits)
next
  assume "extract_text_from_pdf (acquisition env) True = (evs, Inr extracted) \<and>
    snd (translate_text (translation env) extracted source_lang target_lang) = Inr translated \<and>
    create_translated_pdf (doc_build env) translated = Inl e"
  then show "process_translation env source_lang target_lang out app =
        (app, map SetProgress (reported evs) @
              [SetProgress 50, SetProgress 75, ShowErrorOfE, SetProgress 0,
               TranslateButtonNormal], Some e)"
    by (auto simp: process_translation_def on_exception_def split: prod.splits)
next
  assume a: "extract_text_from_pdf (acquisition env) True = (evs, Inr extracted) \<and>
    snd (translate_text (translation env) extracted source_lang target_lang) = Inr translated \<and>
    create_translated_pdf (doc_build env) translated = Inr story"
  obtain app' rest where ar: "after_render (output_pages env) out app = (app', SetProgress 100 # rest)"
    by (simp add: after_render_def Let_def)
  have "process_translation env source_lang target_lang out app =
         (app', map SetProgress (reported evs) @ [SetProgress 50, SetProgress 75, SetProgress 100] @ rest,
          None)"
    using a ar by (auto simp: process_translation_def split: prod.splits)
  then show "\<exists>rest. fst (snd (process_translation env source_lang target_lang out app)) =
         map SetProgress (reported evs) @
         [SetProgress 50, SetProgress 75, SetProgress 100] @ rest \<and>
         progress_of rest = [] \<and>
         snd (snd (process_translation env source_lang target_lang out app)) = None"
    using progress_of_after_render[OF ar] by simp
qed

lemma failing_acquisition:
  "extract_text_from_pdf ocr_failing_pdf True =
     ([Extract 1, Report (50 / 3), Extract 2, Rasterize 2, Recognize 2],
      Inl (lit ''Error extracting text from PDF: Error during OCR on page 2: tesseract is not installed''))"
  by (simp add: ocr_failing_pdf_def sample_pdf_def eval_acq str_nat.simps)

text \<open>
  Claim C5 at an input on which the code fails it. The recogniser fails on page 2: the run
  schedules progress 50/3, the error lambda, progress 0 and the button, and the handler
  caught the exception of the acquisition. When Tk runs the lambda while the worker is
  still inside the \<^verbatim>\<open>except\<close> block, the dialog shows that exception; when Tk runs it after
  the worker has left the block, \<^verbatim>\<open>e\<close> is unbound, the lambda raises \<^verbatim>\<open>NameError\<close> and no
  dialog with the error appears.
\<close>

theorem error_dialog_reads_unbound_e:
  "process_translation (sample_run\<lparr>acquisition := ocr_failing_pdf\<rparr>) (lit ''es'') (lit ''en'')
       (lit ''translated.pdf'') fresh_app =
     (fresh_app,
      [SetProgress (50 / 3), ShowErrorOfE, SetProgress 0, TranslateButtonNormal],
      Some (lit ''Error extracting text from PDF: Error during OCR on page 2: tesseract is not installed'')) \<and>
   run_show_error (e_when_run False
       (Some (lit ''Error extracting text from PDF: Error during OCR on page 2: tesseract is not installed''))) =
     ErrorDialog (lit ''Error extracting text from PDF: Error during OCR on page 2: tesseract is not installed'') \<and>
   run_show_error (e_when_run True
       (Some (lit ''Error extracting text from PDF: Error during OCR on page 2: tesseract is not installed''))) =
     NameErrorNoDialog"
proof -
  have "extract_text_from_pdf (acquisition (sample_run\<lparr>acquisition := ocr_failing_pdf\<rparr>)) True =
     ([Extract 1, Report (50 / 3), Extract 2, Rasterize 2, Recognize 2],
      Inl (lit ''Error extracting text from PDF: Error during OCR on page 2: tesseract is not installed''))"
    by (simp add: failing_acquisition)
  from mp[OF conjunct1[OF progress_checkpoints] this]
  show ?thesis
    by (simp add: run_show_error_def e_when_run_def)
qed

end
